theory Spec2Isabelle
  imports Complex_Main "HOL-Library.Word" "HOL-Library.Multiset" "HOL-Library.Log_Nat"
begin

section \<open>The batching loop of \<open>AlignWorkflow::Runner\<close>\<close>

text \<open>
  \<^verbatim>\<open>static constexpr const int32_t chunkSize = 100;\<close>
\<close>

definition chunkSize :: nat where
  "chunkSize = 100"

text \<open>
  \<^verbatim>\<open>records->resize(i)\<close> of \<open>std::vector\<close>: the first \<open>n\<close> elements are kept, and a
  vector that is shorter is filled up with default-constructed elements.
\<close>

definition resize :: "'r \<Rightarrow> nat \<Rightarrow> 'r list \<Rightarrow> 'r list" where
  "resize dflt n v = take n v @ replicate (n - length v) dflt"

text \<open>
  The reading loop
  \<^verbatim>\<open>
  int32_t i = 0;
  auto records = std::make_unique<std::vector<BAM::BamRecord>>(chunkSize);
  while (qryRdr->GetNext((*records)[i++])) {
      if (i >= chunkSize) {
          queue.ProduceWith(Align, std::move(records));
          records = std::make_unique<std::vector<BAM::BamRecord>>(chunkSize);
          i = 0;
      }
  }\<close>
  The input cursor is the list of the records it still yields: \<open>GetNext\<close> on a non-empty
  cursor stores the next record in the slot it is given and returns true; on an exhausted
  cursor it returns false and the slot keeps its content. The argument \<open>(*records)[i++]\<close>
  is evaluated before the call, so \<open>i\<close> is incremented on the failing call as well.
  \<open>dflt\<close> is the default-constructed record, \<open>queue\<close> the batches handed to
  \<open>ProduceWith\<close> so far, in submission order. Indexing the vector out of range is
  undefined behaviour in the source: the model returns \<open>None\<close> there.
  The loop returns the buffer, the index and the batches submitted when the cursor is
  exhausted.
\<close>

fun Batcher_loop ::
  "nat \<Rightarrow> 'r \<Rightarrow> 'r list \<Rightarrow> 'r list \<Rightarrow> nat \<Rightarrow> 'r list list
    \<Rightarrow> ('r list \<times> nat \<times> 'r list list) option" where
  "Batcher_loop C dflt [] records i queue =
     (if i < length records then Some (records, i + 1, queue) else None)"
| "Batcher_loop C dflt (r # cursor) records i queue =
     (if i < length records then
        (let records' = records[i := r]; i' = i + 1 in
         if i' \<ge> C
         then Batcher_loop C dflt cursor (replicate C dflt) 0 (queue @ [records'])
         else Batcher_loop C dflt cursor records' i' queue)
      else None)"

text \<open>
  The whole batching part of \<open>Runner\<close>: the loop, then
  \<^verbatim>\<open>
  // terminal records, if they exist
  if (i > 0) {
      records->resize(i);
      queue.ProduceWith(Align, std::move(records));
  }\<close>
  The result is the list of batches submitted to the work queue, in submission order.
\<close>

definition Batcher :: "nat \<Rightarrow> 'r \<Rightarrow> 'r list \<Rightarrow> 'r list list option" where
  "Batcher C dflt input =
     (case Batcher_loop C dflt input (replicate C dflt) 0 [] of
        None \<Rightarrow> None
      | Some (records, i, queue) \<Rightarrow>
          Some (if i > 0 then queue @ [resize dflt i records] else queue))"

definition Runner_batches :: "'r \<Rightarrow> 'r list \<Rightarrow> 'r list list option" where
  "Runner_batches dflt input = Batcher chunkSize dflt input"

text \<open>
  What the loop has done when it stops, for the records \<open>ys\<close> read since the batches
  \<open>q\<close> were submitted: the new batches \<open>q'\<close> are full, the buffer holds the records
  \<open>pre'\<close> that are left over, and the index is one past them.
\<close>

definition loop_post ::
  "nat \<Rightarrow> 'r \<Rightarrow> 'r list \<Rightarrow> 'r list list \<Rightarrow> ('r list \<times> nat \<times> 'r list list) option \<Rightarrow> bool" where
  "loop_post C d ys q res \<longleftrightarrow>
     (\<exists>pre' q'. res = Some (pre' @ replicate (C - length pre') d, length pre' + 1, q @ q') \<and>
        length pre' < C \<and> concat q' @ pre' = ys \<and> (\<forall>b\<in>set q'. length b = C) \<and>
        length q' = length ys div C \<and> length pre' = length ys mod C)"

section \<open>The \<open>double\<close> arithmetic of the similarity computations\<close>

text \<open>
  A C++ \<open>double\<close> (IEEE 754 binary64) is a finite value, an infinity or a NaN. The
  finite values are rationals; the sign of a zero is not kept: the only divisions of the
  program divide by a converted integer or by the literal \<open>10.0\<close>, whose zero is \<open>+0.0\<close>,
  and comparisons do not tell the zeros apart.
\<close>

datatype double = Fin rat | PInf | NInf | NaN

text \<open>\<open>ilog2 x\<close> is the binary exponent \<open>\<lfloor>log\<^sub>2 \<bar>x\<bar>\<rfloor>\<close> of a non-zero rational.\<close>

definition ilog2 :: "rat \<Rightarrow> int" where
  "ilog2 x =
     (if 1 \<le> \<bar>x\<bar> then bitlen \<lfloor>\<bar>x\<bar>\<rfloor> - 1 else - bitlen (\<lceil>1 / \<bar>x\<bar>\<rceil> - 1))"

text \<open>Rounding to the nearest integer, a tie to the even one.\<close>

definition round_even :: "rat \<Rightarrow> int" where
  "round_even y =
     (let f = \<lfloor>y\<rfloor>; r = y - of_int f in
      if r < 1 / 2 then f else if 1 / 2 < r then f + 1 else if even f then f else f + 1)"

text \<open>
  The exponent of the last place of the binary64 values around \<open>x\<close>: 53 significant
  bits, and \<open>2\<^sup>-\<^sup>1\<^sup>0\<^sup>7\<^sup>4\<close> in the subnormal range.
\<close>

definition ulp_exp :: "rat \<Rightarrow> int" where
  "ulp_exp x = max (ilog2 x - 52) (- 1074)"

definition rnd :: "rat \<Rightarrow> rat" where
  "rnd x =
     (if x = 0 then 0 else of_int (round_even (x / 2 powi ulp_exp x)) * 2 powi ulp_exp x)"

text \<open>
  The result of an operation whose exact value is \<open>x\<close>, in the default rounding mode
  (to nearest, ties to even): an exact value of magnitude at least
  \<open>2\<^sup>1\<^sup>0\<^sup>2\<^sup>4 - 2\<^sup>9\<^sup>7\<^sup>0\<close> overflows to an infinity.
\<close>

definition overflow_threshold :: rat where
  "overflow_threshold = 2 ^ 1024 - 2 ^ 970"

definition round_double :: "rat \<Rightarrow> double" where
  "round_double x =
     (if overflow_threshold \<le> x then PInf
      else if x \<le> - overflow_threshold then NInf
      else Fin (rnd x))"

text \<open>The conversion of an \<open>int32_t\<close> value: every such value is a binary64 value.\<close>

definition double_of_int32 :: "int \<Rightarrow> double" where
  "double_of_int32 i = Fin (of_int i)"

fun dneg :: "double \<Rightarrow> double" where
  "dneg (Fin a) = Fin (- a)"
| "dneg PInf = NInf"
| "dneg NInf = PInf"
| "dneg NaN = NaN"

fun dadd :: "double \<Rightarrow> double \<Rightarrow> double" where
  "dadd NaN y = NaN"
| "dadd x NaN = NaN"
| "dadd (Fin a) (Fin b) = round_double (a + b)"
| "dadd (Fin a) y = y"
| "dadd x (Fin b) = x"
| "dadd x y = (if x = y then x else NaN)"

definition dsub :: "double \<Rightarrow> double \<Rightarrow> double" where
  "dsub x y = dadd x (dneg y)"

fun dmul :: "double \<Rightarrow> double \<Rightarrow> double" where
  "dmul NaN y = NaN"
| "dmul x NaN = NaN"
| "dmul (Fin a) (Fin b) = round_double (a * b)"
| "dmul (Fin a) y = (if a = 0 then NaN else if 0 < a then y else dneg y)"
| "dmul x (Fin b) = (if b = 0 then NaN else if 0 < b then x else dneg x)"
| "dmul x y = (if x = y then PInf else NInf)"

text \<open>
  Division. A finite value divided by zero is an infinity of the sign of the dividend,
  and \<open>0 / 0\<close> is NaN; nothing traps.
\<close>

fun ddiv :: "double \<Rightarrow> double \<Rightarrow> double" where
  "ddiv NaN y = NaN"
| "ddiv x NaN = NaN"
| "ddiv (Fin a) (Fin b) =
     (if b = 0 then (if a = 0 then NaN else if 0 < a then PInf else NInf)
      else round_double (a / b))"
| "ddiv (Fin a) y = Fin 0"
| "ddiv x (Fin b) = (if 0 \<le> b then x else dneg x)"
| "ddiv x y = NaN"

text \<open>The comparison \<open>x < y\<close>: false when an operand is NaN.\<close>

fun dless :: "double \<Rightarrow> double \<Rightarrow> bool" where
  "dless NaN y = False"
| "dless x NaN = False"
| "dless (Fin a) (Fin b) = (a < b)"
| "dless x NInf = False"
| "dless PInf y = False"
| "dless x y = True"

text \<open>
  \<open>std::round\<close>: to the nearest integer, a tie away from zero. The result of rounding a
  binary64 value is a binary64 value.
\<close>

fun dround :: "double \<Rightarrow> double" where
  "dround (Fin a) = Fin (of_int (if 0 \<le> a then \<lfloor>a + 1 / 2\<rfloor> else - \<lfloor>- a + 1 / 2\<rfloor>))"
| "dround x = x"

section \<open>Alignment records, the filter and the writer\<close>

text \<open>
  What the code reads of a \<open>BAM::BamRecord\<close> (a class of pbbam): the reference
  positions and the three error counts.
\<close>

record BamRecord =
  ReferenceStart :: int
  ReferenceEnd :: int
  NumDeletedBases :: nat
  NumInsertedBases :: nat
  NumMismatches :: nat

text \<open>The value an expression has when it is stored in an \<open>int32_t\<close>.\<close>

definition to_int32 :: "int \<Rightarrow> int" where
  "to_int32 x = sint (word_of_int x :: 32 word)"

text \<open>
  \<^verbatim>\<open>const int32_t span = aln.ReferenceEnd() - aln.ReferenceStart();\<close>
  \<^verbatim>\<open>const int32_t nErr = aln.NumDeletedBases() + aln.NumInsertedBases() + aln.NumMismatches();\<close>
\<close>

definition span_aln :: "BamRecord \<Rightarrow> int" where
  "span_aln aln = to_int32 (ReferenceEnd aln - ReferenceStart aln)"

definition nErr :: "BamRecord \<Rightarrow> int" where
  "nErr aln = to_int32 (int (NumDeletedBases aln + NumInsertedBases aln + NumMismatches aln))"

text \<open>
  The expression \<^verbatim>\<open>1.0 - 1.0 * nErr / span\<close> of \<open>WriteRecords\<close> and of the filter:
  both integers are converted to \<open>double\<close>, and the product, the quotient and the
  difference are each rounded.
\<close>

definition similarity :: "BamRecord \<Rightarrow> double" where
  "similarity aln =
     dsub (Fin 1) (ddiv (dmul (Fin 1) (double_of_int32 (nErr aln))) (double_of_int32 (span_aln aln)))"

text \<open>
  The fields of \<open>AlignSettings\<close> that the filter and the pipeline of \<open>Runner\<close> read.
\<close>

record AlignSettings =
  MinAlignmentLength :: int
  MinAccuracy :: double
  NumThreads :: nat
  Pbi :: bool

text \<open>
  \<^verbatim>\<open>
  const FilterFunc filter = [&settings](const BAM::BamRecord& aln) {
      const int32_t span = aln.ReferenceEnd() - aln.ReferenceStart();
      const int32_t nErr = aln.NumDeletedBases() + aln.NumInsertedBases() + aln.NumMismatches();
      if (span <= 0 || span < settings.MinAlignmentLength) return false;
      if (1.0 - 1.0 * nErr / span < settings.MinAccuracy) return false;
      return true;
  };\<close>
\<close>

definition filter_fn :: "AlignSettings \<Rightarrow> BamRecord \<Rightarrow> bool" where
  "filter_fn settings aln =
     (if span_aln aln \<le> 0 \<or> span_aln aln < MinAlignmentLength settings then False
      else if dless (similarity aln) (MinAccuracy settings) then False
      else True)"

text \<open>
  \<^verbatim>\<open>struct Summary { int32_t NumAlns = 0; int64_t Bases = 0; double Similarity = 0; };\<close>
\<close>

record Summary =
  NumAlns :: "32 word"
  Bases :: "64 word"
  Similarity :: double

text \<open>The lines the writer logs.\<close>

datatype log_entry =
    NumberOfAlignments int
  | NumberOfBases int
  | MeanConcordance double

text \<open>
  What \<open>WriteRecords\<close> works on, all passed by reference: the records written to the
  \<open>BamWriter\<close> so far, the \<open>Summary\<close>, the counter \<open>alignedRecords\<close> and the log.
\<close>

record sink =
  written :: "BamRecord list"
  summary :: Summary
  alignedRecords :: "64 word"
  logged :: "log_entry list"

text \<open>\<open>RecordsType\<close>, a pointer to a vector of records that may be null.\<close>

type_synonym RecordsType = "BamRecord list option"

text \<open>
  The body of the loop of \<open>WriteRecords\<close>:
  \<^verbatim>\<open>
  const int32_t span = aln.ReferenceEnd() - aln.ReferenceStart();
  const int32_t nErr = aln.NumDeletedBases() + aln.NumInsertedBases() + aln.NumMismatches();
  s.Bases += span;
  s.Similarity += 1.0 - 1.0 * nErr / span;
  ++s.NumAlns;
  out.Write(aln);
  if (++alignedRecords % 1000 == 0) {
      PBLOG_INFO << "Number of Alignments: " << alignedRecords;
  }\<close>
\<close>

definition write_aln :: "sink \<Rightarrow> BamRecord \<Rightarrow> sink" where
  "write_aln st aln =
     (let s = summary st;
          s' = s\<lparr>Bases := Bases s + word_of_int (span_aln aln),
                 Similarity := dadd (Similarity s) (similarity aln),
                 NumAlns := NumAlns s + 1\<rparr>;
          n = alignedRecords st + 1
      in \<lparr>written = written st @ [aln],
          summary = s',
          alignedRecords = n,
          logged = (if sint n mod 1000 = 0 then logged st @ [NumberOfAlignments (sint n)]
                    else logged st)\<rparr>)"

text \<open>
  \<^verbatim>\<open>
  void WriteRecords(BAM::BamWriter& out, Summary& s, int64_t& alignedRecords, RecordsType results)
  {
      if (!results) return;
      for (const auto& aln : *results) { ... }
  }\<close>
\<close>

definition WriteRecords :: "sink \<Rightarrow> RecordsType \<Rightarrow> sink" where
  "WriteRecords st results =
     (case results of None \<Rightarrow> st | Some alns \<Rightarrow> foldl write_aln st alns)"

text \<open>
  The value logged as mean concordance:
  \<^verbatim>\<open>std::round(1000.0 * s.Similarity / s.NumAlns) / 10.0\<close>
\<close>

definition mean_concordance :: "Summary \<Rightarrow> double" where
  "mean_concordance s =
     ddiv (dround (ddiv (dmul (Fin 1000) (Similarity s)) (double_of_int32 (sint (NumAlns s)))))
       (Fin 10)"

text \<open>
  \<^verbatim>\<open>
  Summary s;
  int64_t alignedRecords = 0;
  while (queue.ConsumeWith(WriteRecords, std::ref(*out), std::ref(s), std::ref(alignedRecords))) {
  }
  PBLOG_INFO << "Number of Alignments: " << s.NumAlns;
  PBLOG_INFO << "Number of Bases: " << s.Bases;
  PBLOG_INFO << "Mean Concordance (mapped) : "
             << std::round(1000.0 * s.Similarity / s.NumAlns) / 10.0 << "%";\<close>
  \<open>results\<close> are the results that \<open>ConsumeWith\<close> hands to \<open>WriteRecords\<close>, in the order
  of the calls, until the queue reports that it is finalized and empty.
\<close>

definition sink_init :: sink where
  "sink_init =
     \<lparr>written = [], summary = \<lparr>NumAlns = 0, Bases = 0, Similarity = Fin 0\<rparr>,
      alignedRecords = 0, logged = []\<rparr>"

definition report :: "Summary \<Rightarrow> log_entry list" where
  "report s =
     [NumberOfAlignments (sint (NumAlns s)), NumberOfBases (sint (Bases s)),
      MeanConcordance (mean_concordance s)]"

definition WriterThread :: "RecordsType list \<Rightarrow> sink" where
  "WriterThread results =
     (let st = foldl WriteRecords sink_init results
      in st\<lparr>logged := logged st @ report (summary st)\<rparr>)"

text \<open>The records of the results the writer consumes, in the order it meets them.\<close>

definition consumed :: "RecordsType list \<Rightarrow> BamRecord list" where
  "consumed results =
     concat (map (\<lambda>r. case r of None \<Rightarrow> [] | Some alns \<Rightarrow> alns) results)"

text \<open>
  Two synthetic alignments: a span of 100 with no error, and a span of 50 with 5 errors.
\<close>

definition aln_100_0 :: BamRecord where
  "aln_100_0 =
     \<lparr>ReferenceStart = 10, ReferenceEnd = 110,
      NumDeletedBases = 0, NumInsertedBases = 0, NumMismatches = 0\<rparr>"

definition aln_50_5 :: BamRecord where
  "aln_50_5 =
     \<lparr>ReferenceStart = 0, ReferenceEnd = 50,
      NumDeletedBases = 1, NumInsertedBases = 2, NumMismatches = 2\<rparr>"

text \<open>Settings for examples: at least 50 bases, an accuracy of at least 0.75.\<close>

definition settings_50 :: AlignSettings where
  "settings_50 =
     \<lparr>MinAlignmentLength = 50, MinAccuracy = Fin (3 / 4), NumThreads = 2, Pbi = False\<rparr>"

section \<open>The transform that the workers apply\<close>

text \<open>
  Modelled from the spec: \<open>MM2Helper::Align\<close>, whose source (\<open>MM2Helper.cpp\<close>) is not
  among the files. The spec gives the transform as a capability
  \<open>(Batch, FilterPredicate) -> AlignmentResult\<close> whose predicate "is evaluated per
  candidate output record"; "records failing either check are excluded from the
  AlignmentResult, not reported as errors"; the result is "an ordered sequence of zero or
  more output records (records failing the quality filter are dropped, not nulled)" that
  "may be empty". The alignment algorithm is opaque: \<open>candidates\<close> gives the candidate
  output records of a batch, in their order.
\<close>

definition MM2Helper_Align ::
  "(BamRecord list \<Rightarrow> BamRecord list) \<Rightarrow> BamRecord list \<Rightarrow> (BamRecord \<Rightarrow> bool)
    \<Rightarrow> RecordsType" where
  "MM2Helper_Align candidates recs filter_func = Some (filter filter_func (candidates recs))"

text \<open>
  The transform that \<open>Runner\<close> hands to \<open>ProduceWith\<close>:
  \<^verbatim>\<open>
  auto Align = [&](const std::unique_ptr<std::vector<BAM::BamRecord>>& recs) -> RecordsType {
      return mm2helper.Align(recs, filter);
  };\<close>
\<close>

definition Align ::
  "AlignSettings \<Rightarrow> (BamRecord list \<Rightarrow> BamRecord list) \<Rightarrow> BamRecord list \<Rightarrow> RecordsType" where
  "Align settings candidates recs = MM2Helper_Align candidates recs (filter_fn settings)"

text \<open>
  The binary64 value of \<^verbatim>\<open>1.0 - 1.0 * nErr / span\<close> for a span that is not zero: the
  product is exact, the quotient and the difference are rounded.
\<close>

definition similarity_value :: "BamRecord \<Rightarrow> rat" where
  "similarity_value aln = rnd (1 - rnd (of_int (nErr aln) / of_int (span_aln aln)))"

text \<open>A synthetic alignment with a span of 10 and no error.\<close>

definition aln_10_0 :: BamRecord where
  "aln_10_0 =
     \<lparr>ReferenceStart = 0, ReferenceEnd = 10,
      NumDeletedBases = 0, NumInsertedBases = 0, NumMismatches = 0\<rparr>"

section \<open>\<open>CheckPositionalArgs\<close>\<close>

text \<open>
  The enumerators of pbbam's \<open>DataSet::TypeEnum\<close> that the two switches name; every
  other enumerator takes the \<open>default\<close> branch, as \<open>OTHER_TYPE\<close> does here.
\<close>

datatype TypeEnum =
    SUBREAD | CONSENSUS_READ | ALIGNMENT | CONSENSUS_ALIGNMENT | BARCODE | REFERENCE
  | OTHER_TYPE

text \<open>
  What the function asks of the file system and of pbbam: \<open>Utility::FileExists\<close>, the
  type of the \<open>BAM::DataSet\<close> built from a path, and its \<open>FastaFiles()\<close>.
\<close>

record files =
  FileExists :: "string \<Rightarrow> bool"
  DataSetType :: "string \<Rightarrow> TypeEnum"
  FastaFiles :: "string \<Rightarrow> string list"

text \<open>
  The fatal messages: each is logged with \<open>PBLOG_FATAL\<close> and followed by
  \<^verbatim>\<open>std::exit(EXIT_FAILURE)\<close>.
\<close>

datatype fatal =
    MissingArguments
  | InputMissing string
  | UnsupportedInput string TypeEnum
  | ReferenceMissing string
  | UnsupportedReference string TypeEnum
  | NotOneReference

text \<open>\<open>boost::algorithm::ends_with(input, test)\<close>.\<close>

definition ends_with :: "string \<Rightarrow> string \<Rightarrow> bool" where
  "ends_with input test \<longleftrightarrow>
     length test \<le> length input \<and> drop (length input - length test) input = test"

text \<open>The first switch: the input must be a subread or a consensus read set.\<close>

fun input_supported :: "TypeEnum \<Rightarrow> bool" where
  "input_supported SUBREAD = True"
| "input_supported CONSENSUS_READ = True"
| "input_supported ALIGNMENT = False"
| "input_supported CONSENSUS_ALIGNMENT = False"
| "input_supported BARCODE = False"
| "input_supported REFERENCE = False"
| "input_supported OTHER_TYPE = False"

text \<open>The second switch: a reference that is no index must be a reference set.\<close>

fun reference_supported :: "TypeEnum \<Rightarrow> bool" where
  "reference_supported REFERENCE = True"
| "reference_supported BARCODE = False"
| "reference_supported SUBREAD = False"
| "reference_supported ALIGNMENT = False"
| "reference_supported CONSENSUS_ALIGNMENT = False"
| "reference_supported CONSENSUS_READ = False"
| "reference_supported OTHER_TYPE = False"

text \<open>
  \<open>CheckPositionalArgs\<close>: \<open>Inl\<close> is the exit of the process with \<open>EXIT_FAILURE\<close>,
  \<open>Inr\<close> the tuple \<open>{inputFile, reference, out}\<close> it returns.
  \<^verbatim>\<open>
  if (args.size() < 2) { ... std::exit(EXIT_FAILURE); }
  const auto inputFile = args[0];
  if (!Utility::FileExists(inputFile)) { ... std::exit(EXIT_FAILURE); }
  BAM::DataSet dsInput(inputFile);
  switch (dsInput.Type()) { ... }
  const auto& referenceFiles = args[1];
  if (!Utility::FileExists(referenceFiles)) { ... std::exit(EXIT_FAILURE); }
  std::string reference;
  if (boost::algorithm::ends_with(referenceFiles, ".mmi")) {
      reference = referenceFiles;
  } else {
      BAM::DataSet dsRef(referenceFiles);
      switch (dsRef.Type()) { ... }
      const auto fastaFiles = dsRef.FastaFiles();
      if (fastaFiles.size() != 1) { ... std::exit(EXIT_FAILURE); }
      reference = fastaFiles.front();
  }
  std::string out;
  if (args.size() == 3) out = args[2]; else out = "-";
  return std::tuple<std::string, std::string, std::string>{inputFile, reference, out};\<close>
\<close>

definition CheckPositionalArgs ::
  "files \<Rightarrow> string list \<Rightarrow> fatal + (string \<times> string \<times> string)" where
  "CheckPositionalArgs env args =
     (if length args < 2 then Inl MissingArguments
      else
        let inputFile = args ! 0 in
        if \<not> FileExists env inputFile then Inl (InputMissing inputFile)
        else if \<not> input_supported (DataSetType env inputFile)
        then Inl (UnsupportedInput inputFile (DataSetType env inputFile))
        else
          let referenceFiles = args ! 1 in
          if \<not> FileExists env referenceFiles then Inl (ReferenceMissing referenceFiles)
          else
            let out = (if length args = 3 then args ! 2 else ''-'') in
            if ends_with referenceFiles ''.mmi'' then Inr (inputFile, referenceFiles, out)
            else if \<not> reference_supported (DataSetType env referenceFiles)
            then Inl (UnsupportedReference referenceFiles (DataSetType env referenceFiles))
            else
              let fastaFiles = FastaFiles env referenceFiles in
              if length fastaFiles \<noteq> 1 then Inl NotOneReference
              else Inr (inputFile, hd fastaFiles, out))"

text \<open>A file system for examples: every path exists and is a subread set.\<close>

definition files_subreads :: files where
  "files_subreads =
     \<lparr>FileExists = (\<lambda>_. True), DataSetType = (\<lambda>_. SUBREAD), FastaFiles = (\<lambda>_. [])\<rparr>"

section \<open>The pipeline of \<open>Runner\<close>: the driver and the writer thread\<close>

text \<open>
  The statements of \<open>Runner\<close> from the start of the writer thread on, in program order:
  \<^verbatim>\<open>
  Parallel::WorkQueue<RecordsType> queue(settings.NumThreads);
  auto out = std::make_unique<BAM::BamWriter>(alnFile, hdr);
  auto writer = std::thread(WriterThread, std::ref(queue), std::move(out));
  ... // the reading loop and the terminal batch: one ProduceWith for each batch
  queue.Finalize();
  writer.join();
  }
  if (settings.Pbi) { ... BAM::PbiFile::CreateFrom(validationBam, ...); }
  if (outputIsXML) CreateDataSet(qryFile, outputFilePrefix, settings);
  return EXIT_SUCCESS;\<close>
\<close>

datatype action =
    ProduceWith "BamRecord list"
  | Finalize
  | Join
  | CreatePbi
  | CreateDataSet

definition post_processing :: "AlignSettings \<Rightarrow> bool \<Rightarrow> action list" where
  "post_processing settings outputIsXML =
     (if Pbi settings then [CreatePbi] else []) @ (if outputIsXML then [CreateDataSet] else [])"

definition Runner_actions ::
  "AlignSettings \<Rightarrow> bool \<Rightarrow> BamRecord \<Rightarrow> BamRecord list \<Rightarrow> action list option" where
  "Runner_actions settings outputIsXML dflt input =
     (case Runner_batches dflt input of
        None \<Rightarrow> None
      | Some batches \<Rightarrow>
          Some (map ProduceWith batches @ [Finalize, Join] @ post_processing settings outputIsXML))"

text \<open>
  The state that the driver and the writer thread share. \<open>driver\<close> holds the statements
  that \<open>Runner\<close> has still to execute, \<open>tasks\<close> the batches submitted to the work queue
  whose results are not yet consumed, in submission order; \<open>finalized\<close> is set by
  \<open>Finalize\<close>; \<open>writer\<close> is the state of the writer thread and \<open>writer_done\<close> says that
  \<open>WriterThread\<close> has returned; \<open>seen\<close> records, for each post-processing step that has
  run, the records that the output file held then.
\<close>

record pipeline =
  driver :: "action list"
  tasks :: "BamRecord list list"
  finalized :: bool
  writer :: sink
  writer_done :: bool
  seen :: "(action \<times> BamRecord list) list"

definition pipeline_init :: "action list \<Rightarrow> pipeline" where
  "pipeline_init prog =
     \<lparr>driver = prog, tasks = [], finalized = False, writer = sink_init,
      writer_done = False, seen = []\<rparr>"

text \<open>
  One step of the driver; \<open>None\<close> when it cannot move. The work queue and the thread
  are pbcopper's and the standard library's, and the steps follow their contracts:
  \<open>ProduceWith\<close> blocks while the queue holds \<open>cap\<close> tasks, \<open>join\<close> blocks until the
  thread's function has returned.
\<close>

fun driver_step :: "nat \<Rightarrow> pipeline \<Rightarrow> pipeline option" where
  "driver_step cap s =
     (case driver s of
        [] \<Rightarrow> None
      | ProduceWith b # rest \<Rightarrow>
          if length (tasks s) < cap then Some (s\<lparr>driver := rest, tasks := tasks s @ [b]\<rparr>)
          else None
      | Finalize # rest \<Rightarrow> Some (s\<lparr>driver := rest, finalized := True\<rparr>)
      | Join # rest \<Rightarrow> if writer_done s then Some (s\<lparr>driver := rest\<rparr>) else None
      | CreatePbi # rest \<Rightarrow>
          Some (s\<lparr>driver := rest, seen := seen s @ [(CreatePbi, written (writer s))]\<rparr>)
      | CreateDataSet # rest \<Rightarrow>
          Some (s\<lparr>driver := rest, seen := seen s @ [(CreateDataSet, written (writer s))]\<rparr>))"

text \<open>
  One step of the writer thread: an iteration of the loop of \<open>WriterThread\<close>, or its
  end. \<open>ConsumeWith\<close> takes the oldest task, waits for its result \<open>align b\<close> (the call
  \<open>mm2helper.Align(recs, filter)\<close> that a worker makes) and passes it to \<open>WriteRecords\<close>;
  it blocks while the queue is empty and not finalized, and returns false once the queue
  is finalized and empty: the loop ends and the three lines of the report are logged.
\<close>

fun writer_step :: "(BamRecord list \<Rightarrow> RecordsType) \<Rightarrow> pipeline \<Rightarrow> pipeline option" where
  "writer_step align s =
     (if writer_done s then None
      else
        (case tasks s of
           b # q \<Rightarrow> Some (s\<lparr>tasks := q, writer := WriteRecords (writer s) (align b)\<rparr>)
         | [] \<Rightarrow>
             if finalized s
             then Some (s\<lparr>writer_done := True,
                          writer := (writer s)\<lparr>logged :=
                            logged (writer s) @ report (summary (writer s))\<rparr>\<rparr>)
             else None))"

text \<open>
  An execution under a schedule: the scheduled thread makes its step, and a thread that
  is blocked or has ended leaves the state as it is.
\<close>

datatype thread = Driver | Writer

fun run ::
  "(BamRecord list \<Rightarrow> RecordsType) \<Rightarrow> nat \<Rightarrow> thread list \<Rightarrow> pipeline \<Rightarrow> pipeline" where
  "run align cap [] s = s"
| "run align cap (Driver # sched) s =
     run align cap sched (case driver_step cap s of None \<Rightarrow> s | Some s' \<Rightarrow> s')"
| "run align cap (Writer # sched) s =
     run align cap sched (case writer_step align s of None \<Rightarrow> s | Some s' \<Rightarrow> s')"

text \<open>
  The three phases of an execution, for the batches \<open>B\<close> of the input and the
  post-processing steps \<open>post\<close>. While the driver produces, the batches are split into
  those consumed, those in the queue and those still to submit. After \<open>Finalize\<close> the
  driver waits at the join while the writer drains the queue. After the join the writer
  has ended with every result written.
\<close>

definition producing ::
  "(BamRecord list \<Rightarrow> RecordsType) \<Rightarrow> BamRecord list list \<Rightarrow> action list \<Rightarrow> pipeline \<Rightarrow> bool" where
  "producing align B post s \<longleftrightarrow>
     (\<exists>bs cs. driver s = map ProduceWith bs @ [Finalize, Join] @ post \<and>
        cs @ tasks s @ bs = B \<and> \<not> finalized s \<and> \<not> writer_done s \<and>
        writer s = foldl WriteRecords sink_init (map align cs) \<and> seen s = [])"

definition draining ::
  "(BamRecord list \<Rightarrow> RecordsType) \<Rightarrow> BamRecord list list \<Rightarrow> action list \<Rightarrow> pipeline \<Rightarrow> bool" where
  "draining align B post s \<longleftrightarrow>
     (\<exists>cs. driver s = Join # post \<and> cs @ tasks s = B \<and> finalized s \<and> seen s = [] \<and>
        (if writer_done s then tasks s = [] \<and> writer s = WriterThread (map align B)
         else writer s = foldl WriteRecords sink_init (map align cs)))"

definition stopped ::
  "(BamRecord list \<Rightarrow> RecordsType) \<Rightarrow> BamRecord list list \<Rightarrow> action list \<Rightarrow> pipeline \<Rightarrow> bool" where
  "stopped align B post s \<longleftrightarrow>
     (\<exists>pre. post = pre @ driver s) \<and> tasks s = [] \<and> finalized s \<and> writer_done s \<and>
     writer s = WriterThread (map align B) \<and>
     (\<forall>e\<in>set (seen s). snd e = consumed (map align B))"

definition pipeline_inv ::
  "(BamRecord list \<Rightarrow> RecordsType) \<Rightarrow> BamRecord list list \<Rightarrow> action list \<Rightarrow> pipeline \<Rightarrow> bool" where
  "pipeline_inv align B post s \<longleftrightarrow>
     producing align B post s \<or> draining align B post s \<or> stopped align B post s"

text \<open>Settings for examples with the index requested.\<close>

definition settings_pbi :: AlignSettings where
  "settings_pbi =
     \<lparr>MinAlignmentLength = 50, MinAccuracy = Fin (3 / 4), NumThreads = 2, Pbi = True\<rparr>"

section \<open>What the batching loop submits\<close>

lemma update_buffer:
  "length pre < C \<Longrightarrow>
   (pre @ replicate (C - length pre) d)[length pre := r] =
   (pre @ [r]) @ replicate (C - length (pre @ [r])) d"
  by (cases "C - length pre") (simp_all add: list_update_append)

lemma loop_postI:
  "res = Some (pre' @ replicate (C - length pre') d, length pre' + 1, q @ q') \<Longrightarrow>
   length pre' < C \<Longrightarrow> concat q' @ pre' = ys \<Longrightarrow> (\<forall>b\<in>set q'. length b = C) \<Longrightarrow>
   length q' = length ys div C \<Longrightarrow> length pre' = length ys mod C \<Longrightarrow>
   loop_post C d ys q res"
  unfolding loop_post_def by blast

lemma loop_post_full:
  assumes "loop_post C d ys (q @ [b]) res" "length b = C" "0 < C"
  shows "loop_post C d (b @ ys) q res"
proof -
  from assms(1) obtain pre' q' where
    res: "res = Some (pre' @ replicate (C - length pre') d, length pre' + 1, (q @ [b]) @ q')"
    and rest: "length pre' < C" "concat q' @ pre' = ys" "\<forall>b\<in>set q'. length b = C"
      "length q' = length ys div C" "length pre' = length ys mod C"
    unfolding loop_post_def by blast
  have "length (b @ ys) = C + length ys" using assms(2) by simp
  then have dm: "length (b @ ys) div C = Suc (length ys div C)"
    "length (b @ ys) mod C = length ys mod C"
    using \<open>0 < C\<close> by (simp_all only: div_add_self1 mod_add_self1)
  show ?thesis
  proof (rule loop_postI [where pre' = pre' and q' = "b # q'"])
    show "res = Some (pre' @ replicate (C - length pre') d, length pre' + 1, q @ b # q')"
      using res by simp
    show "concat (b # q') @ pre' = b @ ys" using rest(2) by simp
    show "\<forall>b\<in>set (b # q'). length b = C" using rest(3) assms(2) by simp
    show "length (b # q') = length (b @ ys) div C" using rest(4) dm(1) by simp
    show "length pre' = length (b @ ys) mod C" using rest(5) dm(2) by simp
  qed (rule rest(1))
qed

lemma Batcher_loop_inv:
  assumes "0 < C"
  shows "length pre < C \<Longrightarrow>
     loop_post C d (pre @ xs) q
       (Batcher_loop C d xs (pre @ replicate (C - length pre) d) (length pre) q)"
proof (induction xs arbitrary: pre q)
  case Nil
  show ?case
    by (rule loop_postI [where pre' = pre and q' = "[]"]) (use Nil in simp_all)
next
  case (Cons r xs)
  note upd = update_buffer [OF Cons.prems, of d r]
  show ?case
  proof (cases "length pre + 1 \<ge> C")
    case True
    with Cons.prems have len: "length (pre @ [r]) = C" by simp
    have "loop_post C d ([] @ xs) (q @ [pre @ [r]])
       (Batcher_loop C d xs ([] @ replicate (C - length ([]::'a list)) d) (length ([]::'a list))
          (q @ [pre @ [r]]))"
      by (rule Cons.IH) (use \<open>0 < C\<close> in simp)
    then have "loop_post C d xs (q @ [pre @ [r]])
       (Batcher_loop C d xs (replicate C d) 0 (q @ [pre @ [r]]))"
      by simp
    then have "loop_post C d ((pre @ [r]) @ xs) q
       (Batcher_loop C d xs (replicate C d) 0 (q @ [pre @ [r]]))"
      using len \<open>0 < C\<close> by (rule loop_post_full)
    moreover have "Batcher_loop C d (r # xs) (pre @ replicate (C - length pre) d) (length pre) q
       = Batcher_loop C d xs (replicate C d) 0 (q @ [pre @ [r]])"
      using Cons.prems True upd len by simp
    ultimately show ?thesis by simp
  next
    case False
    then have small: "length (pre @ [r]) < C" by simp
    have "Batcher_loop C d (r # xs) (pre @ replicate (C - length pre) d) (length pre) q
       = Batcher_loop C d xs ((pre @ [r]) @ replicate (C - length (pre @ [r])) d)
           (length (pre @ [r])) q"
      using Cons.prems False upd by simp
    with Cons.IH [OF small, of q] show ?thesis by simp
  qed
qed

lemma Batcher_shape:
  assumes "0 < C"
  shows "\<exists>q' pre'. Batcher C d xs = Some (q' @ [pre' @ [d]]) \<and>
     concat q' @ pre' = xs \<and> (\<forall>b\<in>set q'. length b = C) \<and>
     length q' = length xs div C \<and> length pre' = length xs mod C \<and> length pre' < C"
proof -
  have "loop_post C d ([] @ xs) []
     (Batcher_loop C d xs ([] @ replicate (C - length ([]::'a list)) d) (length ([]::'a list)) [])"
    by (rule Batcher_loop_inv [OF assms]) (use assms in simp)
  then have "loop_post C d xs [] (Batcher_loop C d xs (replicate C d) 0 [])"
    by simp
  then obtain pre' q' where
    run: "Batcher_loop C d xs (replicate C d) 0 [] =
       Some (pre' @ replicate (C - length pre') d, length pre' + 1, [] @ q')"
    and rest: "length pre' < C" "concat q' @ pre' = xs" "\<forall>b\<in>set q'. length b = C"
      "length q' = length xs div C" "length pre' = length xs mod C"
    unfolding loop_post_def by blast
  have "resize d (length pre' + 1) (pre' @ replicate (C - length pre') d) = pre' @ [d]"
    using rest(1) by (cases "C - length pre'") (simp_all add: resize_def)
  then have "Batcher C d xs = Some (q' @ [pre' @ [d]])"
    using run by (simp add: Batcher_def)
  then show ?thesis using rest by blast
qed


lemma Batcher_general:
  assumes "0 < C"
  shows "\<exists>bs. Batcher C d xs = Some bs \<and> concat bs = xs @ [d] \<and>
     length bs = length xs div C + 1 \<and>
     map length (butlast bs) = replicate (length xs div C) C \<and>
     length (last bs) = length xs mod C + 1"
proof -
  from Batcher_shape [OF assms, of d xs] obtain q' pre' where
    run: "Batcher C d xs = Some (q' @ [pre' @ [d]])"
    and rest: "concat q' @ pre' = xs" "\<forall>b\<in>set q'. length b = C"
      "length q' = length xs div C" "length pre' = length xs mod C"
    by blast
  have "map length q' = replicate (length q') C"
    using rest(2) by (induction q') simp_all
  then show ?thesis
    using run rest by simp
qed

lemma Runner_batches_empty: "Runner_batches d [] = Some [[d]]"
  by (simp add: Runner_batches_def Batcher_def chunkSize_def resize_def)

text \<open>
  C1. The specification: \<open>R\<close> input records give \<open>ceil(R/C)\<close> batches, the last of
  \<open>R mod C\<close> records (or \<open>C\<close>), and no batch for \<open>R = 0\<close>. The loop increments \<open>i\<close>
  on the call of \<open>GetNext\<close> that fails, so the code always submits a terminal batch:
  \<open>R div 100 + 1\<close> batches, full ones first, the last of \<open>R mod 100 + 1\<close> records. For
  an input without records it submits one batch, of one default-constructed record.
\<close>

theorem Runner_batches_count:
  "(\<exists>bs. Runner_batches d xs = Some bs \<and>
     length bs = length xs div chunkSize + 1 \<and>
     map length (butlast bs) = replicate (length xs div chunkSize) chunkSize \<and>
     length (last bs) = length xs mod chunkSize + 1) \<and>
   Runner_batches d [] = Some [[d]]"
proof -
  have "0 < chunkSize" by (simp add: chunkSize_def)
  from Batcher_general [OF this, of d xs] show ?thesis
    unfolding Runner_batches_def [of d xs] using Runner_batches_empty [of d] by blast
qed

text \<open>
  C2. The specification: the records submitted are the records read, as multisets. In the code
  the terminal batch ends with the buffer slot that the failing \<open>GetNext\<close> was given, a
  record that was never read: the batches, concatenated, are the input followed by one
  default-constructed record.
\<close>

theorem Runner_batches_records:
  "\<exists>bs. Runner_batches d xs = Some bs \<and> concat bs = xs @ [d] \<and>
     length (concat bs) = length xs + 1 \<and>
     mset (concat bs) = mset xs + {#d#} \<and> mset (concat bs) \<noteq> mset xs"
proof -
  have "0 < chunkSize" by (simp add: chunkSize_def)
  from Batcher_general [OF this, of d xs] obtain bs where
    "Runner_batches d xs = Some bs" "concat bs = xs @ [d]"
    unfolding Runner_batches_def by blast
  then show ?thesis by simp
qed

section \<open>Rounding: the exponent and the error of \<open>rnd\<close>\<close>

lemma ilog2_lower:
  assumes "x \<noteq> 0"
  shows "2 powi ilog2 x \<le> \<bar>x\<bar>"
proof (cases "1 \<le> \<bar>x\<bar>")
  case True
  define n where "n = \<lfloor>\<bar>x\<bar>\<rfloor>"
  have n: "0 < n" using True by (simp add: n_def)
  from bitlen_bounds [OF n] have b: "2 ^ nat (bitlen n - 1) \<le> n" by simp
  have "0 \<le> bitlen n - 1" using n by (simp add: bitlen_def floorlog_def)
  then have "(2::rat) powi (bitlen n - 1) = 2 ^ nat (bitlen n - 1)"
    by (simp add: power_int_def)
  also have "\<dots> = of_int (2 ^ nat (bitlen n - 1))" by simp
  also have "\<dots> \<le> of_int n" using b by (simp only: of_int_le_iff)
  also have "\<dots> \<le> \<bar>x\<bar>" by (simp add: n_def)
  finally show ?thesis using True by (simp add: ilog2_def n_def)
next
  case False
  define y where "y = 1 / \<bar>x\<bar>"
  define m where "m = \<lceil>y\<rceil>"
  have x: "0 < \<bar>x\<bar>" "\<bar>x\<bar> < 1" using assms False by simp_all
  then have y: "1 < y" by (simp add: y_def)
  then have m: "0 < m - 1" by (simp add: m_def)
  from bitlen_bounds [OF m] have "m - 1 < 2 ^ nat (bitlen (m - 1))" by simp
  then have "m \<le> 2 ^ nat (bitlen (m - 1))" by simp
  then have "(of_int m :: rat) \<le> 2 ^ nat (bitlen (m - 1))" by simp
  moreover have "y \<le> of_int m" by (simp add: m_def)
  ultimately have "y \<le> 2 ^ nat (bitlen (m - 1))" by (rule order_trans [rotated])
  then have "1 / 2 ^ nat (bitlen (m - 1)) \<le> 1 / y"
    using y by (intro divide_left_mono) simp_all
  moreover have "1 / y = \<bar>x\<bar>" by (simp add: y_def)
  moreover have "0 \<le> bitlen (m - 1)" by (simp add: bitlen_def)
  then have "(2::rat) powi (- bitlen (m - 1)) = 1 / 2 ^ nat (bitlen (m - 1))"
    by (simp add: power_int_def field_simps)
  ultimately show ?thesis using False by (simp add: ilog2_def m_def y_def)
qed

lemma ilog2_upper:
  assumes "x \<noteq> 0"
  shows "\<bar>x\<bar> < 2 powi (ilog2 x + 1)"
proof (cases "1 \<le> \<bar>x\<bar>")
  case True
  define n where "n = \<lfloor>\<bar>x\<bar>\<rfloor>"
  have n: "0 < n" using True by (simp add: n_def)
  from bitlen_bounds [OF n] have "n < 2 ^ nat (bitlen n)" by simp
  then have "n + 1 \<le> 2 ^ nat (bitlen n)" by simp
  then have "(of_int (n + 1) :: rat) \<le> 2 ^ nat (bitlen n)"
    by (simp del: of_int_add)
  moreover have "\<bar>x\<bar> < of_int (n + 1)" unfolding n_def by linarith
  moreover have "0 \<le> bitlen n" by (simp add: bitlen_def)
  then have "(2::rat) powi (bitlen n) = 2 ^ nat (bitlen n)"
    by (simp add: power_int_def)
  ultimately show ?thesis using True by (simp add: ilog2_def n_def)
next
  case False
  define y where "y = 1 / \<bar>x\<bar>"
  define m where "m = \<lceil>y\<rceil>"
  have x: "0 < \<bar>x\<bar>" "\<bar>x\<bar> < 1" using assms False by simp_all
  then have y: "1 < y" by (simp add: y_def)
  then have m: "0 < m - 1" by (simp add: m_def)
  from bitlen_bounds [OF m] have "2 ^ nat (bitlen (m - 1) - 1) \<le> m - 1" by simp
  then have "(2 ^ nat (bitlen (m - 1) - 1) :: rat) \<le> of_int (m - 1)"
    by (simp del: of_int_diff)
  moreover have "of_int (m - 1) < y" unfolding m_def by linarith
  ultimately have lt: "2 ^ nat (bitlen (m - 1) - 1) < y" by (rule le_less_trans)
  have "1 / y < 1 / 2 ^ nat (bitlen (m - 1) - 1)"
    using lt y by (intro divide_strict_left_mono) simp_all
  moreover have "1 / y = \<bar>x\<bar>" by (simp add: y_def)
  moreover have "1 \<le> bitlen (m - 1)" using m by (simp add: bitlen_def floorlog_def)
  then have "(2::rat) powi (- bitlen (m - 1) + 1) = 1 / 2 ^ nat (bitlen (m - 1) - 1)"
    by (simp add: power_int_def field_simps nat_diff_distrib)
  ultimately show ?thesis using False by (simp add: ilog2_def m_def y_def)
qed

lemma round_even_error: "\<bar>of_int (round_even y) - y\<bar> \<le> 1 / 2"
proof -
  have "of_int \<lfloor>y\<rfloor> \<le> y" "y < of_int \<lfloor>y\<rfloor> + 1" by linarith+
  then show ?thesis
    by (auto simp: round_even_def Let_def abs_le_iff)
qed

lemma ulp_le:
  assumes "x \<noteq> 0"
  shows "2 powi ulp_exp x \<le> \<bar>x\<bar> + 1"
proof (cases "ilog2 x - 52 \<le> - 1074")
  case True
  then have "ulp_exp x = - 1074" by (simp add: ulp_exp_def)
  moreover have "(2::rat) powi (- 1074) \<le> 1"
    by (simp add: power_int_def field_simps)
  ultimately show ?thesis by simp
next
  case False
  then have "ulp_exp x = ilog2 x - 52" by (simp add: ulp_exp_def)
  moreover have "(2::rat) powi (ilog2 x - 52) \<le> 2 powi ilog2 x"
    by (rule power_int_increasing) simp_all
  ultimately show ?thesis using ilog2_lower [OF assms] by simp
qed

lemma rnd_error: "\<bar>rnd x - x\<bar> \<le> 2 powi ulp_exp x / 2"
proof (cases "x = 0")
  case True
  then show ?thesis by (simp add: rnd_def)
next
  case False
  define u where "u = (2::rat) powi ulp_exp x"
  have u: "0 < u" by (simp add: u_def)
  have "rnd x - x = (of_int (round_even (x / u)) - x / u) * u"
    using False u by (simp add: rnd_def u_def field_simps)
  then have "\<bar>rnd x - x\<bar> = \<bar>of_int (round_even (x / u)) - x / u\<bar> * u"
    using u by (simp add: abs_mult)
  also have "\<dots> \<le> 1 / 2 * u"
    using round_even_error [of "x / u"] u by (intro mult_right_mono) simp_all
  finally show ?thesis by (simp add: u_def)
qed

lemma rnd_bound: "\<bar>rnd x\<bar> \<le> 2 * \<bar>x\<bar> + 1"
proof (cases "x = 0")
  case True
  then show ?thesis by (simp add: rnd_def)
next
  case False
  have "\<bar>rnd x\<bar> \<le> \<bar>x\<bar> + \<bar>rnd x - x\<bar>" by linarith
  also have "\<dots> \<le> \<bar>x\<bar> + 2 powi ulp_exp x / 2" using rnd_error [of x] by simp
  also have "\<dots> \<le> \<bar>x\<bar> + (\<bar>x\<bar> + 1) / 2" using ulp_le [OF False] by simp
  finally show ?thesis using abs_ge_zero [of x] by (simp add: field_simps)
qed

lemma overflow_threshold_large: "2 ^ 40 < overflow_threshold"
  by (simp add: overflow_threshold_def)

lemma round_double_small:
  assumes "\<bar>x\<bar> \<le> 2 ^ 40"
  shows "round_double x = Fin (rnd x)"
  using assms overflow_threshold_large by (simp add: round_double_def abs_le_iff)

lemma round_even_of_int: "round_even (of_int k) = k"
  by (simp add: round_even_def)

lemma ilog2_le:
  assumes "x \<noteq> 0" "\<bar>x\<bar> < 2 powi k"
  shows "ilog2 x < k"
proof (rule ccontr)
  assume "\<not> ilog2 x < k"
  then have "k \<le> ilog2 x" by simp
  then have "(2::rat) powi k \<le> 2 powi ilog2 x"
    by (intro power_int_increasing) simp_all
  also have "\<dots> \<le> \<bar>x\<bar>" using assms(1) by (rule ilog2_lower)
  finally show False using assms(2) by simp
qed

lemma rnd_of_int:
  assumes "\<bar>k\<bar> < 2 ^ 53"
  shows "rnd (of_int k) = of_int k"
proof (cases "k = 0")
  case True
  then show ?thesis by (simp add: rnd_def)
next
  case False
  define x :: rat where "x = of_int k"
  have x0: "x \<noteq> 0" using False by (simp add: x_def)
  have "\<bar>x\<bar> = of_int \<bar>k\<bar>" by (simp add: x_def)
  also have "\<dots> < of_int (2 ^ 53)" using assms by (simp only: of_int_less_iff)
  finally have "\<bar>x\<bar> < 2 powi 53" by simp
  with x0 have "ilog2 x < 53" by (rule ilog2_le)
  then have u: "ulp_exp x \<le> 0" by (simp add: ulp_exp_def)
  define m where "m = nat (- ulp_exp x)"
  have p: "(2::rat) powi ulp_exp x = 1 / 2 ^ m"
    using u by (simp add: power_int_def m_def field_simps)
  have "x / 2 powi ulp_exp x = x * 2 ^ m"
    by (simp add: p)
  also have "\<dots> = of_int (k * 2 ^ m)"
    by (simp add: x_def)
  finally have "x / 2 powi ulp_exp x = of_int (k * 2 ^ m)" .
  then have "round_even (x / 2 powi ulp_exp x) = k * 2 ^ m"
    by (simp only: round_even_of_int)
  then have "rnd x = of_int (k * 2 ^ m) * (1 / 2 ^ m)"
    using x0 by (simp add: rnd_def p)
  then show ?thesis by (simp add: x_def)
qed

lemma rnd_rel_error: "\<bar>rnd x - x\<bar> \<le> \<bar>x\<bar> / 2 ^ 53 + 2 powi (- 1075)"
proof (cases "x = 0")
  case True
  then show ?thesis by (simp add: rnd_def)
next
  case False
  have a: "(2::rat) powi (ilog2 x - 52) = 2 powi ilog2 x / 2 ^ 52"
    by (simp add: power_int_diff)
  have "(2::rat) powi ulp_exp x \<le> 2 powi (ilog2 x - 52) + 2 powi (- 1074)"
    by (cases "ilog2 x - 52 \<le> - 1074") (simp_all add: ulp_exp_def max_def)
  also have "\<dots> \<le> \<bar>x\<bar> / 2 ^ 52 + 2 powi (- 1074)"
    using ilog2_lower [OF False] by (simp add: a divide_right_mono)
  finally have "2 powi ulp_exp x / 2 \<le> (\<bar>x\<bar> / 2 ^ 52 + 2 powi (- 1074)) / 2"
    by (simp add: divide_right_mono)
  also have "\<dots> = \<bar>x\<bar> / 2 ^ 53 + 2 powi (- 1075)"
    by (simp add: power_int_def field_simps)
  finally show ?thesis using rnd_error [of x] by linarith
qed

section \<open>What the writer does with the results it consumes\<close>

lemma write_aln_fields:
  "written (write_aln st aln) = written st @ [aln]"
  "NumAlns (summary (write_aln st aln)) = NumAlns (summary st) + 1"
  "Bases (summary (write_aln st aln)) = Bases (summary st) + word_of_int (span_aln aln)"
  "Similarity (summary (write_aln st aln)) = dadd (Similarity (summary st)) (similarity aln)"
  "alignedRecords (write_aln st aln) = alignedRecords st + 1"
  by (simp_all add: write_aln_def Let_def)

lemma foldl_write_aln_written:
  "written (foldl write_aln st alns) = written st @ alns"
  by (induction alns arbitrary: st) (simp_all add: write_aln_fields)

lemma foldl_write_aln_NumAlns:
  "NumAlns (summary (foldl write_aln st alns)) = NumAlns (summary st) + of_nat (length alns)"
  by (induction alns arbitrary: st) (simp_all add: write_aln_fields)

lemma foldl_write_aln_Bases:
  "Bases (summary (foldl write_aln st alns)) =
     Bases (summary st) + word_of_int (sum_list (map span_aln alns))"
  by (induction alns arbitrary: st) (simp_all add: write_aln_fields)

lemma foldl_write_aln_Similarity:
  "Similarity (summary (foldl write_aln st alns)) =
     foldl dadd (Similarity (summary st)) (map similarity alns)"
  by (induction alns arbitrary: st) (simp_all add: write_aln_fields)

lemma foldl_write_aln_alignedRecords:
  "alignedRecords (foldl write_aln st alns) = alignedRecords st + of_nat (length alns)"
  by (induction alns arbitrary: st) (simp_all add: write_aln_fields)

lemmas foldl_write_aln =
  foldl_write_aln_written foldl_write_aln_NumAlns foldl_write_aln_Bases
  foldl_write_aln_Similarity foldl_write_aln_alignedRecords

text \<open>
  C8. An absent result and a result that is present and empty both leave everything as it
  was: nothing is written, the three fields of the summary and \<open>alignedRecords\<close> keep
  their values, nothing is logged.
\<close>

theorem WriteRecords_absent_or_empty:
  "WriteRecords st None = st \<and> WriteRecords st (Some []) = st"
  by (simp add: WriteRecords_def)

lemma WriteRecords_fields:
  "written (WriteRecords st r) = written st @ consumed [r]"
  "NumAlns (summary (WriteRecords st r)) = NumAlns (summary st) + of_nat (length (consumed [r]))"
  "Bases (summary (WriteRecords st r)) =
     Bases (summary st) + word_of_int (sum_list (map span_aln (consumed [r])))"
  "Similarity (summary (WriteRecords st r)) =
     foldl dadd (Similarity (summary st)) (map similarity (consumed [r]))"
  "alignedRecords (WriteRecords st r) = alignedRecords st + of_nat (length (consumed [r]))"
  by (cases r; simp add: WriteRecords_def consumed_def foldl_write_aln)+

lemma consumed_Cons: "consumed (r # rs) = consumed [r] @ consumed rs"
  by (simp add: consumed_def)

lemma foldl_WriteRecords_written:
  "written (foldl WriteRecords st rs) = written st @ consumed rs"
proof (induction rs arbitrary: st)
  case Nil
  show ?case by (simp add: consumed_def)
next
  case (Cons r rs)
  show ?case
    by (simp add: Cons.IH WriteRecords_fields consumed_Cons [of r rs])
qed

lemma foldl_WriteRecords_NumAlns:
  "NumAlns (summary (foldl WriteRecords st rs)) =
     NumAlns (summary st) + of_nat (length (consumed rs))"
proof (induction rs arbitrary: st)
  case Nil
  show ?case by (simp add: consumed_def)
next
  case (Cons r rs)
  show ?case
    by (simp add: Cons.IH WriteRecords_fields consumed_Cons [of r rs])
qed

lemma foldl_WriteRecords_Bases:
  "Bases (summary (foldl WriteRecords st rs)) =
     Bases (summary st) + word_of_int (sum_list (map span_aln (consumed rs)))"
proof (induction rs arbitrary: st)
  case Nil
  show ?case by (simp add: consumed_def)
next
  case (Cons r rs)
  show ?case
    by (simp add: Cons.IH WriteRecords_fields consumed_Cons [of r rs])
qed

lemma foldl_WriteRecords_Similarity:
  "Similarity (summary (foldl WriteRecords st rs)) =
     foldl dadd (Similarity (summary st)) (map similarity (consumed rs))"
proof (induction rs arbitrary: st)
  case Nil
  show ?case by (simp add: consumed_def)
next
  case (Cons r rs)
  show ?case
    by (simp add: Cons.IH WriteRecords_fields consumed_Cons [of r rs])
qed

lemma WriterThread_summary:
  "summary (WriterThread rs) =
     \<lparr>NumAlns = of_nat (length (consumed rs)),
      Bases = word_of_int (sum_list (map span_aln (consumed rs))),
      Similarity = foldl dadd (Fin 0) (map similarity (consumed rs))\<rparr>"
  by (simp add: WriterThread_def Let_def foldl_WriteRecords_NumAlns foldl_WriteRecords_Bases
      foldl_WriteRecords_Similarity sink_init_def)

text \<open>
  C7. For a result that is present, \<open>WriteRecords\<close> writes every record of the result,
  in the order of the result, after what was written before, and folds each record into
  the summary: one more alignment, its span added to the bases, its similarity added to
  the similarity sum (the counters in their \<open>int32_t\<close> and \<open>int64_t\<close> arithmetic, the sum
  in \<open>double\<close> arithmetic, record by record). Over all the results the writer consumes,
  the output is the concatenation of their records.
\<close>

theorem WriteRecords_present:
  "written (WriteRecords st (Some alns)) = written st @ alns \<and>
   NumAlns (summary (WriteRecords st (Some alns))) =
     NumAlns (summary st) + of_nat (length alns) \<and>
   Bases (summary (WriteRecords st (Some alns))) =
     Bases (summary st) + word_of_int (sum_list (map span_aln alns)) \<and>
   Similarity (summary (WriteRecords st (Some alns))) =
     foldl dadd (Similarity (summary st)) (map similarity alns) \<and>
   alignedRecords (WriteRecords st (Some alns)) = alignedRecords st + of_nat (length alns) \<and>
   written (foldl WriteRecords st results) = written st @ consumed results"
  by (simp add: WriteRecords_def foldl_write_aln foldl_WriteRecords_written)

section \<open>The similarity of a record and the filter\<close>

lemma to_int32_range: "- (2 ^ 31) \<le> to_int32 x" "to_int32 x < 2 ^ 31"
  using sint_ge [of "word_of_int x :: 32 word"] sint_lt [of "word_of_int x :: 32 word"]
  by (simp_all add: to_int32_def)

lemma nErr_range: "\<bar>(of_int (nErr aln) :: rat)\<bar> \<le> 2 ^ 31"
proof -
  have "\<bar>nErr aln\<bar> \<le> 2 ^ 31"
    using to_int32_range [of "int (NumDeletedBases aln + NumInsertedBases aln + NumMismatches aln)"]
    by (simp add: nErr_def abs_le_iff)
  then have "(of_int \<bar>nErr aln\<bar> :: rat) \<le> of_int (2 ^ 31)"
    by (simp only: of_int_le_iff)
  then show ?thesis by simp
qed

lemma similarity_nonzero_span:
  assumes "span_aln aln \<noteq> 0"
  shows "\<exists>q. similarity aln = Fin q"
proof -
  define n :: rat where "n = of_int (nErr aln)"
  define s :: rat where "s = of_int (span_aln aln)"
  have n: "\<bar>n\<bar> \<le> 2 ^ 31" unfolding n_def by (rule nErr_range)
  have s: "1 \<le> \<bar>s\<bar>" "s \<noteq> 0" using assms by (simp_all add: s_def flip: of_int_abs)
  have mul: "round_double n = Fin (rnd n)"
    using n by (simp add: round_double_small)
  have rn: "\<bar>rnd n\<bar> \<le> 2 ^ 32 + 1"
    using rnd_bound [of n] n by simp
  have "\<bar>rnd n / s\<bar> = \<bar>rnd n\<bar> / \<bar>s\<bar>" by simp
  also have "\<dots> \<le> \<bar>rnd n\<bar> / 1"
    using s(1) by (intro divide_left_mono) simp_all
  finally have q: "\<bar>rnd n / s\<bar> \<le> 2 ^ 32 + 1" using rn by simp
  then have quot: "round_double (rnd n / s) = Fin (rnd (rnd n / s))"
    by (simp add: round_double_small)
  have rq: "\<bar>rnd (rnd n / s)\<bar> \<le> 2 ^ 34"
    using rnd_bound [of "rnd n / s"] q by simp
  then have "\<bar>1 + - rnd (rnd n / s)\<bar> \<le> 2 ^ 40" by simp
  then have "round_double (1 + - rnd (rnd n / s)) = Fin (rnd (1 + - rnd (rnd n / s)))"
    by (rule round_double_small)
  then show ?thesis
    using s(2) by (simp add: similarity_def double_of_int32_def dsub_def mul quot flip: n_def s_def)
qed

lemma similarity_zero_span:
  assumes "span_aln aln = 0"
  shows "similarity aln \<in> {NaN, PInf, NInf}"
proof -
  define n :: rat where "n = of_int (nErr aln)"
  have n: "\<bar>n\<bar> \<le> 2 ^ 31" unfolding n_def by (rule nErr_range)
  have mul: "round_double n = Fin (rnd n)"
    using n by (simp add: round_double_small)
  show ?thesis
    using assms by (simp add: similarity_def double_of_int32_def mul dsub_def flip: n_def)
qed

lemma similarity_finite_iff: "(\<exists>q. similarity aln = Fin q) \<longleftrightarrow> span_aln aln \<noteq> 0"
  using similarity_nonzero_span [of aln] similarity_zero_span [of aln] by auto


section \<open>The summary of two synthetic alignments\<close>

lemma dmul_Fin:
  "rnd (a * b) = c \<Longrightarrow> \<bar>a * b\<bar> \<le> 2 ^ 40 \<Longrightarrow> dmul (Fin a) (Fin b) = Fin c"
  by (simp add: round_double_small)

lemma ddiv_Fin:
  "rnd (a / b) = c \<Longrightarrow> b \<noteq> 0 \<and> \<bar>a / b\<bar> \<le> 2 ^ 40 \<Longrightarrow> ddiv (Fin a) (Fin b) = Fin c"
  by (simp add: round_double_small)

lemma dadd_Fin:
  "rnd (a + b) = c \<Longrightarrow> \<bar>a + b\<bar> \<le> 2 ^ 40 \<Longrightarrow> dadd (Fin a) (Fin b) = Fin c"
  by (simp add: round_double_small)

lemma dsub_Fin:
  "rnd (a - b) = c \<Longrightarrow> \<bar>a - b\<bar> \<le> 2 ^ 40 \<Longrightarrow> dsub (Fin a) (Fin b) = Fin c"
  by (simp add: dsub_def round_double_small)

lemma dmul_values:
  "dmul (Fin 1) (Fin 0) = Fin 0"
  "dmul (Fin 1) (Fin 5) = Fin 5"
  "dmul (Fin 1000) (Fin (4278419646001971 / 2251799813685248)) = Fin 1900"
  by (rule dmul_Fin, code_simp, simp)+

lemma ddiv_values:
  "ddiv (Fin 0) (Fin 100) = Fin 0"
  "ddiv (Fin 5) (Fin 50) = Fin (3602879701896397 / 36028797018963968)"
  "ddiv (Fin 1900) (Fin 2) = Fin 950"
  "ddiv (Fin 950) (Fin 10) = Fin 95"
  by (rule ddiv_Fin, code_simp, simp)+

lemma dsub_values:
  "dsub (Fin 1) (Fin 0) = Fin 1"
  "dsub (Fin 1) (Fin (3602879701896397 / 36028797018963968)) =
     Fin (8106479329266893 / 9007199254740992)"
  by (rule dsub_Fin, code_simp, simp)+

lemma dadd_values:
  "dadd (Fin 0) (Fin 1) = Fin 1"
  "dadd (Fin 1) (Fin (8106479329266893 / 9007199254740992)) =
     Fin (4278419646001971 / 2251799813685248)"
  "dadd (Fin 0) (Fin (8106479329266893 / 9007199254740992)) =
     Fin (8106479329266893 / 9007199254740992)"
  "dadd (Fin (8106479329266893 / 9007199254740992)) (Fin 1) =
     Fin (4278419646001971 / 2251799813685248)"
  by (rule dadd_Fin, code_simp, simp)+

lemma dround_values: "dround (Fin 950) = Fin 950"
  by code_simp

lemmas double_values = dmul_values ddiv_values dsub_values dadd_values dround_values

lemma similarity_100_0:
  assumes "span_aln a = 100" "nErr a = 0"
  shows "similarity a = Fin 1"
  by (simp only: similarity_def assms double_of_int32_def of_int_0 of_int_numeral double_values)

lemma similarity_50_5:
  assumes "span_aln b = 50" "nErr b = 5"
  shows "similarity b = Fin (8106479329266893 / 9007199254740992)"
  by (simp only: similarity_def assms double_of_int32_def of_int_numeral double_values)

lemma mean_concordance_two:
  assumes "NumAlns s = 2" "Similarity s = Fin (4278419646001971 / 2251799813685248)"
  shows "mean_concordance s = Fin 95"
proof -
  have "sint (2 :: 32 word) = 2" by simp
  then show ?thesis
    by (simp only: mean_concordance_def assms double_of_int32_def of_int_numeral double_values)
qed

lemma synthetic_spans:
  "span_aln aln_100_0 = 100" "nErr aln_100_0 = 0" "span_aln aln_50_5 = 50" "nErr aln_50_5 = 5"
  by (simp_all add: span_aln_def nErr_def to_int32_def aln_100_0_def aln_50_5_def)

lemma logged_WriterThread:
  "logged (WriterThread rs) =
     logged (foldl WriteRecords sink_init rs) @ report (summary (WriterThread rs))"
  by (simp add: WriterThread_def Let_def)

lemma last_logged_WriterThread:
  "last (logged (WriterThread rs)) = MeanConcordance (mean_concordance (summary (WriterThread rs)))"
  by (simp add: logged_WriterThread report_def)

text \<open>
  C6. When the results consumed hold exactly two alignments, one with a span of 100 and
  no error and one with a span of 50 and 5 errors, the summary holds a count of 2 and 150
  bases, and the mean concordance logged is \<open>round(1000 * (1.0 + 0.9) / 2) / 10 = 95\<close>,
  every operation rounded as binary64 arithmetic rounds it.
\<close>

theorem WriterThread_two_alignments:
  assumes "span_aln a = 100" "nErr a = 0" "span_aln b = 50" "nErr b = 5"
    and "consumed results = [a, b] \<or> consumed results = [b, a]"
  shows "NumAlns (summary (WriterThread results)) = 2 \<and>
     Bases (summary (WriterThread results)) = 150 \<and>
     mean_concordance (summary (WriterThread results)) = Fin 95 \<and>
     last (logged (WriterThread results)) = MeanConcordance (Fin 95)"
proof -
  note sims = similarity_100_0 [OF assms(1,2)] similarity_50_5 [OF assms(3,4)]
  have sim: "Similarity (summary (WriterThread results)) =
      Fin (4278419646001971 / 2251799813685248)"
    using assms(5)
  proof
    assume "consumed results = [a, b]"
    then show ?thesis
      by (simp only: WriterThread_summary Summary.simps list.map foldl.simps sims double_values)
  next
    assume "consumed results = [b, a]"
    then show ?thesis
      by (simp only: WriterThread_summary Summary.simps list.map foldl.simps sims double_values)
  qed
  have cnt: "NumAlns (summary (WriterThread results)) = 2"
    using assms(5) by (auto simp: WriterThread_summary)
  have bases: "Bases (summary (WriterThread results)) = 150"
    using assms by (auto simp: WriterThread_summary)
  have "mean_concordance (summary (WriterThread results)) = Fin 95"
    using cnt sim by (rule mean_concordance_two)
  then show ?thesis
    using cnt bases by (simp add: last_logged_WriterThread)
qed

theorem WriterThread_two_alignments_witness:
  "span_aln aln_100_0 = 100 \<and> nErr aln_100_0 = 0 \<and>
   span_aln aln_50_5 = 50 \<and> nErr aln_50_5 = 5 \<and>
   consumed [Some [aln_100_0], None, Some [aln_50_5]] = [aln_100_0, aln_50_5] \<and>
   NumAlns (summary (WriterThread [Some [aln_100_0], None, Some [aln_50_5]])) = 2 \<and>
   Bases (summary (WriterThread [Some [aln_100_0], None, Some [aln_50_5]])) = 150 \<and>
   mean_concordance (summary (WriterThread [Some [aln_100_0], None, Some [aln_50_5]])) = Fin 95 \<and>
   last (logged (WriterThread [Some [aln_100_0], None, Some [aln_50_5]])) =
     MeanConcordance (Fin 95)"
proof -
  have c: "consumed [Some [aln_100_0], None, Some [aln_50_5]] = [aln_100_0, aln_50_5]"
    by (simp add: consumed_def)
  from WriterThread_two_alignments [OF synthetic_spans disjI1 [OF c]] synthetic_spans c
  show ?thesis by simp
qed

section \<open>The checks of the positional arguments\<close>

lemma input_supported_iff: "input_supported t \<longleftrightarrow> t \<in> {SUBREAD, CONSENSUS_READ}"
  by (cases t) simp_all

lemma reference_supported_iff: "reference_supported t \<longleftrightarrow> t = REFERENCE"
  by (cases t) simp_all

text \<open>
  C9. \<open>CheckPositionalArgs\<close> exits with a failure status exactly when there are fewer
  than two arguments, or the input or the reference file does not exist, or the input is
  neither a subread nor a consensus read set, or the reference is no \<open>.mmi\<close> index and
  is not a reference set with exactly one FASTA file. Given exactly two arguments that
  pass these checks, it returns \<open>"-"\<close> as the output path.
\<close>

theorem CheckPositionalArgs_result:
  "(isl (CheckPositionalArgs env args) \<longleftrightarrow>
      length args < 2 \<or> \<not> FileExists env (args ! 0) \<or>
      DataSetType env (args ! 0) \<notin> {SUBREAD, CONSENSUS_READ} \<or>
      \<not> FileExists env (args ! 1) \<or>
      (\<not> ends_with (args ! 1) ''.mmi'' \<and>
         (DataSetType env (args ! 1) \<noteq> REFERENCE \<or> length (FastaFiles env (args ! 1)) \<noteq> 1))) \<and>
   (length args = 2 \<longrightarrow> \<not> isl (CheckPositionalArgs env args) \<longrightarrow>
      CheckPositionalArgs env args =
        Inr (args ! 0,
             if ends_with (args ! 1) ''.mmi'' then args ! 1 else hd (FastaFiles env (args ! 1)),
             ''-''))"
  by (simp add: CheckPositionalArgs_def Let_def input_supported_iff reference_supported_iff)

theorem CheckPositionalArgs_result_witness:
  "length [''movie.subreads.bam'', ''ref.mmi''] = 2 \<and>
   \<not> isl (CheckPositionalArgs files_subreads [''movie.subreads.bam'', ''ref.mmi'']) \<and>
   CheckPositionalArgs files_subreads [''movie.subreads.bam'', ''ref.mmi''] =
     Inr (''movie.subreads.bam'', ''ref.mmi'', ''-'') \<and>
   length [''movie.subreads.bam''] < 2 \<and>
   isl (CheckPositionalArgs files_subreads [''movie.subreads.bam'']) \<and>
   DataSetType files_subreads ''ref.fasta'' \<noteq> REFERENCE \<and>
   isl (CheckPositionalArgs files_subreads [''movie.subreads.bam'', ''ref.fasta''])"
  using CheckPositionalArgs_result [of files_subreads "[''movie.subreads.bam'', ''ref.mmi'']"]
    CheckPositionalArgs_result [of files_subreads "[''movie.subreads.bam'']"]
    CheckPositionalArgs_result [of files_subreads "[''movie.subreads.bam'', ''ref.fasta'']"]
  by (simp add: files_subreads_def ends_with_def)

section \<open>The filter, the divisions and the report of the writer\<close>

lemma to_int32_in_range:
  assumes "- (2 ^ 31) \<le> x" "x < 2 ^ 31"
  shows "to_int32 x = x"
proof -
  have "to_int32 x = signed_take_bit (LENGTH(32) - 1) x"
    unfolding to_int32_def by (rule sint_sbintrunc')
  also have "\<dots> = x"
    using assms by (simp add: signed_take_bit_int_eq_self)
  finally show ?thesis .
qed

lemma span_aln_in_range:
  assumes "- (2 ^ 31) \<le> ReferenceEnd aln - ReferenceStart aln"
    "ReferenceEnd aln - ReferenceStart aln < 2 ^ 31"
  shows "span_aln aln = ReferenceEnd aln - ReferenceStart aln"
  unfolding span_aln_def using assms by (rule to_int32_in_range)

lemma filter_fn_span: "filter_fn settings aln \<Longrightarrow> 1 \<le> span_aln aln"
  by (simp add: filter_fn_def split: if_splits)

text \<open>
  C10. When every record of a result was admitted by the filter, every record has a span
  of at least 1, so no division of the writer has a zero divisor and every similarity it
  adds to the summary is a finite value; the filter itself rejects a span of zero or less
  whatever the quotient is. A similarity is finite exactly when the span is not zero.
\<close>

theorem admitted_similarity_defined:
  assumes "\<forall>aln\<in>set alns. filter_fn settings aln"
  shows "(\<forall>aln\<in>set alns. 1 \<le> span_aln aln \<and> double_of_int32 (span_aln aln) \<noteq> Fin 0 \<and>
            (\<exists>q. similarity aln = Fin q)) \<and>
     (\<forall>aln. span_aln aln \<le> 0 \<longrightarrow> \<not> filter_fn settings aln) \<and>
     (\<forall>aln. (\<exists>q. similarity aln = Fin q) \<longleftrightarrow> span_aln aln \<noteq> 0) \<and>
     Similarity (summary (WriteRecords st (Some alns))) =
       foldl dadd (Similarity (summary st)) (map similarity alns)"
proof (intro conjI ballI allI impI)
  fix aln assume "aln \<in> set alns"
  with assms have "filter_fn settings aln" by blast
  then have s: "1 \<le> span_aln aln" by (rule filter_fn_span)
  then show "1 \<le> span_aln aln" .
  from s show "double_of_int32 (span_aln aln) \<noteq> Fin 0"
    by (simp add: double_of_int32_def)
  from s have "span_aln aln \<noteq> 0" by simp
  then show "\<exists>q. similarity aln = Fin q" by (rule similarity_nonzero_span)
next
  fix aln assume "span_aln aln \<le> 0"
  then show "\<not> filter_fn settings aln" by (simp add: filter_fn_def)
next
  fix aln show "(\<exists>q. similarity aln = Fin q) \<longleftrightarrow> span_aln aln \<noteq> 0"
    by (rule similarity_finite_iff)
next
  show "Similarity (summary (WriteRecords st (Some alns))) =
       foldl dadd (Similarity (summary st)) (map similarity alns)"
    by (simp add: WriteRecords_def foldl_write_aln_Similarity)
qed

lemma filter_fn_synthetic: "filter_fn settings_50 aln_100_0" "filter_fn settings_50 aln_50_5"
  by (simp_all add: filter_fn_def synthetic_spans settings_50_def
      similarity_100_0 [OF synthetic_spans(1,2)] similarity_50_5 [OF synthetic_spans(3,4)])

theorem admitted_similarity_defined_witness:
  "filter_fn settings_50 aln_100_0 \<and> filter_fn settings_50 aln_50_5 \<and>
   1 \<le> span_aln aln_100_0 \<and> 1 \<le> span_aln aln_50_5 \<and>
   (\<exists>q. similarity aln_100_0 = Fin q) \<and> (\<exists>q. similarity aln_50_5 = Fin q) \<and>
   Similarity (summary (WriteRecords sink_init (Some [aln_100_0, aln_50_5]))) =
     foldl dadd (Similarity (summary sink_init)) (map similarity [aln_100_0, aln_50_5])"
proof -
  have h: "\<forall>aln\<in>set [aln_100_0, aln_50_5]. filter_fn settings_50 aln"
    using filter_fn_synthetic by simp
  from admitted_similarity_defined [OF h, of sink_init] filter_fn_synthetic
  show ?thesis by simp
qed

lemma similarity_eq_value:
  assumes "span_aln aln \<noteq> 0"
  shows "similarity aln = Fin (similarity_value aln)"
proof -
  define n :: rat where "n = of_int (nErr aln)"
  define s :: rat where "s = of_int (span_aln aln)"
  have n: "\<bar>n\<bar> \<le> 2 ^ 31" unfolding n_def by (rule nErr_range)
  have s: "1 \<le> \<bar>s\<bar>" "s \<noteq> 0" using assms by (simp_all add: s_def flip: of_int_abs)
  have "\<bar>nErr aln\<bar> < 2 ^ 53"
    using to_int32_range [of "int (NumDeletedBases aln + NumInsertedBases aln + NumMismatches aln)"]
    by (simp add: nErr_def abs_less_iff)
  then have rn: "rnd n = n" unfolding n_def by (rule rnd_of_int)
  have mul: "round_double n = Fin n"
    using n rn by (simp add: round_double_small)
  have "\<bar>n / s\<bar> = \<bar>n\<bar> / \<bar>s\<bar>" by simp
  also have "\<dots> \<le> \<bar>n\<bar> / 1"
    using s(1) by (intro divide_left_mono) simp_all
  finally have q: "\<bar>n / s\<bar> \<le> 2 ^ 31" using n by simp
  then have quot: "round_double (n / s) = Fin (rnd (n / s))"
    by (simp add: round_double_small)
  have "\<bar>rnd (n / s)\<bar> \<le> 2 ^ 33"
    using rnd_bound [of "n / s"] q by simp
  then have "\<bar>1 + - rnd (n / s)\<bar> \<le> 2 ^ 40" by simp
  then have "round_double (1 + - rnd (n / s)) = Fin (rnd (1 + - rnd (n / s)))"
    by (rule round_double_small)
  then show ?thesis
    using s(2)
    by (simp add: similarity_def similarity_value_def double_of_int32_def dsub_def mul quot
        flip: n_def s_def)
qed

lemma similarity_value_error:
  assumes "span_aln aln \<noteq> 0"
  shows "\<bar>similarity_value aln - (1 - of_int (nErr aln) / of_int (span_aln aln))\<bar>
     \<le> (1 + \<bar>of_int (nErr aln) / of_int (span_aln aln)\<bar>) / 2 ^ 52"
proof -
  define r :: rat where "r = of_int (nErr aln) / of_int (span_aln aln)"
  define c :: rat where "c = 2 powi (- 1075)"
  define e1 where "e1 = \<bar>rnd r - r\<bar>"
  define e2 where "e2 = \<bar>rnd (1 - rnd r) - (1 - rnd r)\<bar>"
  have c: "0 \<le> c" "c * 2 ^ 54 \<le> 1 / 4" "c \<le> 1 / 4"
    by (simp_all add: c_def power_int_def field_simps)
  have s: "1 \<le> \<bar>(of_int (span_aln aln) :: rat)\<bar>"
    using assms by (simp flip: of_int_abs)
  have "\<bar>r\<bar> = \<bar>of_int (nErr aln)\<bar> / \<bar>(of_int (span_aln aln) :: rat)\<bar>"
    by (simp add: r_def)
  also have "\<dots> \<le> \<bar>of_int (nErr aln)\<bar> / 1"
    using s by (intro divide_left_mono) simp_all
  finally have r: "\<bar>r\<bar> \<le> 2 ^ 31" using nErr_range [of aln] by simp
  have b1: "e1 \<le> \<bar>r\<bar> / 2 ^ 53 + c"
    unfolding e1_def c_def by (rule rnd_rel_error)
  have "e2 \<le> \<bar>1 - rnd r\<bar> / 2 ^ 53 + c"
    unfolding e2_def c_def by (rule rnd_rel_error)
  moreover have "\<bar>1 - rnd r\<bar> \<le> 1 + \<bar>r\<bar> + e1"
    unfolding e1_def by linarith
  then have "\<bar>1 - rnd r\<bar> / 2 ^ 53 \<le> (1 + \<bar>r\<bar> + e1) / 2 ^ 53"
    by (simp add: divide_right_mono)
  ultimately have b2: "e2 \<le> (1 + \<bar>r\<bar> + e1) / 2 ^ 53 + c" by linarith
  have "\<bar>rnd (1 - rnd r) - (1 - r)\<bar> \<le> e1 + e2"
    unfolding e1_def e2_def by linarith
  also have "\<dots> \<le> (\<bar>r\<bar> / 2 ^ 53 + c) + ((1 + \<bar>r\<bar> + (\<bar>r\<bar> / 2 ^ 53 + c)) / 2 ^ 53 + c)"
    using b1 b2 by (intro add_mono order_trans [OF b2]) (simp_all add: divide_right_mono)
  also have "\<dots> \<le> (1 + \<bar>r\<bar>) / 2 ^ 52"
    using r c by (simp add: field_simps)
  finally show ?thesis
    by (simp add: similarity_value_def r_def)
qed

lemma dless_Fin: "dless (Fin a) (Fin b) \<longleftrightarrow> a < b"
  by simp

lemma dless_NaN_NInf: "\<not> dless x NaN" "\<not> dless x NInf"
  by (cases x; simp)+

lemma filter_fn_finite_threshold:
  assumes "MinAccuracy settings = Fin t"
  shows "filter_fn settings aln \<longleftrightarrow>
     \<not> (span_aln aln \<le> 0 \<or> span_aln aln < MinAlignmentLength settings) \<and>
     \<not> similarity_value aln < t"
proof (cases "span_aln aln \<le> 0")
  case True
  then show ?thesis by (simp add: filter_fn_def)
next
  case False
  then have "span_aln aln \<noteq> 0" by simp
  then have "similarity aln = Fin (similarity_value aln)" by (rule similarity_eq_value)
  then show ?thesis by (simp add: filter_fn_def assms)
qed

lemma filter_fn_PInf:
  assumes "MinAccuracy settings = PInf"
  shows "\<not> filter_fn settings aln"
proof (cases "span_aln aln \<le> 0")
  case True
  then show ?thesis by (simp add: filter_fn_def)
next
  case False
  then have "span_aln aln \<noteq> 0" by simp
  then have "similarity aln = Fin (similarity_value aln)" by (rule similarity_eq_value)
  then show ?thesis by (simp add: filter_fn_def assms)
qed

lemma filter_fn_no_threshold:
  assumes "MinAccuracy settings = NaN \<or> MinAccuracy settings = NInf"
  shows "filter_fn settings aln \<longleftrightarrow>
     \<not> (span_aln aln \<le> 0 \<or> span_aln aln < MinAlignmentLength settings)"
  using assms dless_NaN_NInf [of "similarity aln"] by (auto simp: filter_fn_def)

lemma filter_fn_aln_10_0: "\<not> filter_fn settings_50 aln_10_0"
  by (simp add: filter_fn_def span_aln_def to_int32_def aln_10_0_def settings_50_def)

text \<open>
  C4. The filter accepts a record if and only if both checks pass. With \<open>span\<close> and
  \<open>nErr\<close> the \<open>int32_t\<close> values the code computes, a record is rejected when
  \<open>span \<le> 0\<close> or \<open>span < MinAlignmentLength\<close>, and rejected when the value of
  \<open>1.0 - 1.0 * nErr / span\<close> is less than \<open>MinAccuracy\<close>. The value compared is the
  binary64 value of the expression, which is within \<open>(1 + \<bar>nErr / span\<bar>) / 2\<^sup>5\<^sup>2\<close> of
  the exact \<open>1 - nErr / span\<close>. A threshold that is NaN or minus infinity rejects nothing
  for accuracy, and plus infinity rejects every record. The result of the transform holds
  the candidate records that the filter accepts, in their order, and is always present:
  a rejected record is left out and nothing is reported as an error.
\<close>

theorem filter_fn_both_checks:
  "(\<forall>t. MinAccuracy settings = Fin t \<longrightarrow>
      (filter_fn settings aln \<longleftrightarrow>
         \<not> (span_aln aln \<le> 0 \<or> span_aln aln < MinAlignmentLength settings) \<and>
         \<not> similarity_value aln < t)) \<and>
   (MinAccuracy settings = NaN \<or> MinAccuracy settings = NInf \<longrightarrow>
      (filter_fn settings aln \<longleftrightarrow>
         \<not> (span_aln aln \<le> 0 \<or> span_aln aln < MinAlignmentLength settings))) \<and>
   (MinAccuracy settings = PInf \<longrightarrow> \<not> filter_fn settings aln) \<and>
   (span_aln aln \<noteq> 0 \<longrightarrow>
      similarity aln = Fin (similarity_value aln) \<and>
      similarity_value aln = rnd (1 - rnd (of_int (nErr aln) / of_int (span_aln aln))) \<and>
      \<bar>similarity_value aln - (1 - of_int (nErr aln) / of_int (span_aln aln))\<bar>
        \<le> (1 + \<bar>of_int (nErr aln) / of_int (span_aln aln)\<bar>) / 2 ^ 52) \<and>
   span_aln aln = to_int32 (ReferenceEnd aln - ReferenceStart aln) \<and>
   nErr aln = to_int32 (int (NumDeletedBases aln + NumInsertedBases aln + NumMismatches aln)) \<and>
   (\<exists>rs. Align settings candidates recs = Some rs \<and>
      rs = filter (filter_fn settings) (candidates recs) \<and>
      (\<forall>a. a \<in> set rs \<longleftrightarrow> a \<in> set (candidates recs) \<and> filter_fn settings a))"
proof (intro conjI allI impI)
  fix t assume "MinAccuracy settings = Fin t"
  then show "filter_fn settings aln \<longleftrightarrow>
     \<not> (span_aln aln \<le> 0 \<or> span_aln aln < MinAlignmentLength settings) \<and>
     \<not> similarity_value aln < t"
    by (rule filter_fn_finite_threshold)
next
  assume "MinAccuracy settings = NaN \<or> MinAccuracy settings = NInf"
  then show "filter_fn settings aln \<longleftrightarrow>
     \<not> (span_aln aln \<le> 0 \<or> span_aln aln < MinAlignmentLength settings)"
    by (rule filter_fn_no_threshold)
next
  assume "MinAccuracy settings = PInf"
  then show "\<not> filter_fn settings aln" by (rule filter_fn_PInf)
next
  assume s: "span_aln aln \<noteq> 0"
  then show "similarity aln = Fin (similarity_value aln)" by (rule similarity_eq_value)
  show "similarity_value aln = rnd (1 - rnd (of_int (nErr aln) / of_int (span_aln aln)))"
    by (simp add: similarity_value_def)
  from s show "\<bar>similarity_value aln - (1 - of_int (nErr aln) / of_int (span_aln aln))\<bar>
      \<le> (1 + \<bar>of_int (nErr aln) / of_int (span_aln aln)\<bar>) / 2 ^ 52"
    by (rule similarity_value_error)
next
  show "span_aln aln = to_int32 (ReferenceEnd aln - ReferenceStart aln)"
    by (simp add: span_aln_def)
  show "nErr aln =
      to_int32 (int (NumDeletedBases aln + NumInsertedBases aln + NumMismatches aln))"
    by (simp add: nErr_def)
  show "\<exists>rs. Align settings candidates recs = Some rs \<and>
      rs = filter (filter_fn settings) (candidates recs) \<and>
      (\<forall>a. a \<in> set rs \<longleftrightarrow> a \<in> set (candidates recs) \<and> filter_fn settings a)"
    by (simp add: Align_def MM2Helper_Align_def)
qed

theorem filter_fn_both_checks_witness:
  "MinAccuracy settings_50 = Fin (3 / 4) \<and>
   span_aln aln_50_5 \<noteq> 0 \<and>
   filter_fn settings_50 aln_50_5 \<and>
   \<not> similarity_value aln_50_5 < 3 / 4 \<and>
   similarity aln_50_5 = Fin (similarity_value aln_50_5) \<and>
   \<not> filter_fn settings_50 aln_10_0 \<and>
   Align settings_50 (\<lambda>recs. [aln_50_5, aln_10_0]) [] = Some [aln_50_5] \<and>
   MinAccuracy (settings_50\<lparr>MinAccuracy := PInf\<rparr>) = PInf \<and>
   \<not> filter_fn (settings_50\<lparr>MinAccuracy := PInf\<rparr>) aln_50_5 \<and>
   MinAccuracy (settings_50\<lparr>MinAccuracy := NaN\<rparr>) = NaN \<and>
   filter_fn (settings_50\<lparr>MinAccuracy := NaN\<rparr>) aln_50_5"
proof -
  have m: "MinAccuracy settings_50 = Fin (3 / 4)" "MinAlignmentLength settings_50 = 50"
    by (simp_all add: settings_50_def)
  have s: "span_aln aln_50_5 \<noteq> 0" by (simp add: synthetic_spans)
  note a = filter_fn_both_checks [of settings_50 aln_50_5 "\<lambda>recs. [aln_50_5, aln_10_0]" "[]"]
  note b = filter_fn_both_checks [of "settings_50\<lparr>MinAccuracy := PInf\<rparr>" aln_50_5]
  note c = filter_fn_both_checks [of "settings_50\<lparr>MinAccuracy := NaN\<rparr>" aln_50_5]
  have "filter_fn settings_50 aln_50_5 \<and> \<not> similarity_value aln_50_5 < 3 / 4"
    using a m filter_fn_synthetic(2) by blast
  moreover have "similarity aln_50_5 = Fin (similarity_value aln_50_5)"
    using a s by blast
  moreover have "Align settings_50 (\<lambda>recs. [aln_50_5, aln_10_0]) [] = Some [aln_50_5]"
    using a filter_fn_synthetic(2) filter_fn_aln_10_0 by simp
  moreover have "\<not> filter_fn (settings_50\<lparr>MinAccuracy := PInf\<rparr>) aln_50_5"
    using b by simp
  moreover have "filter_fn (settings_50\<lparr>MinAccuracy := NaN\<rparr>) aln_50_5"
    using c m synthetic_spans by simp
  ultimately show ?thesis
    using m s filter_fn_aln_10_0 by simp
qed

lemma round_double_0: "round_double 0 = Fin 0"
  by (simp add: round_double_small rnd_def)

text \<open>
  C3, as the code has it. When the queue is drained the writer logs the number of
  alignments, the number of bases and the mean concordance
  \<open>round(1000 * Similarity / NumAlns) / 10\<close> of the records it wrote, by the same
  formula whatever the count: the division is not guarded, there is no state for
  "no alignments", and with no alignment written the value logged is the NaN of
  \<open>0.0 / 0\<close>.
\<close>

theorem WriterThread_report:
  "written (WriterThread results) = consumed results \<and>
   (\<exists>progress. logged (WriterThread results) = progress @
      [NumberOfAlignments (sint (word_of_nat (length (consumed results)) :: 32 word)),
       NumberOfBases (sint (word_of_int (sum_list (map span_aln (consumed results))) :: 64 word)),
       MeanConcordance
         (ddiv (dround (ddiv
            (dmul (Fin 1000) (foldl dadd (Fin 0) (map similarity (consumed results))))
            (double_of_int32 (sint (word_of_nat (length (consumed results)) :: 32 word)))))
          (Fin 10))]) \<and>
   (consumed results = [] \<longrightarrow>
      last (logged (WriterThread results)) = MeanConcordance NaN)"
proof (intro conjI impI)
  show "written (WriterThread results) = consumed results"
    by (simp add: WriterThread_def Let_def foldl_WriteRecords_written sink_init_def)
  show "\<exists>progress. logged (WriterThread results) = progress @
      [NumberOfAlignments (sint (word_of_nat (length (consumed results)) :: 32 word)),
       NumberOfBases (sint (word_of_int (sum_list (map span_aln (consumed results))) :: 64 word)),
       MeanConcordance
         (ddiv (dround (ddiv
            (dmul (Fin 1000) (foldl dadd (Fin 0) (map similarity (consumed results))))
            (double_of_int32 (sint (word_of_nat (length (consumed results)) :: 32 word)))))
          (Fin 10))]"
    by (rule exI [of _ "logged (foldl WriteRecords sink_init results)"])
      (simp add: logged_WriterThread report_def mean_concordance_def WriterThread_summary)
  assume "consumed results = []"
  then show "last (logged (WriterThread results)) = MeanConcordance NaN"
    by (simp add: last_logged_WriterThread mean_concordance_def WriterThread_summary
        double_of_int32_def round_double_0)
qed

theorem WriterThread_report_witness:
  "consumed [Some [], None] = [] \<and>
   last (logged (WriterThread [Some [], None])) = MeanConcordance NaN \<and>
   written (WriterThread [Some [], None]) = []"
  using WriterThread_report [of "[Some [], None]"]
  by (simp add: consumed_def)

text \<open>
  C3 as the specification states it, with a guard and a "no alignments" state, fails on
  an empty queue: the mean concordance logged is NaN.
\<close>

theorem WriterThread_empty_logs_NaN:
  "logged (WriterThread []) = [NumberOfAlignments 0, NumberOfBases 0, MeanConcordance NaN]"
  by (simp add: WriterThread_def sink_init_def report_def mean_concordance_def
      double_of_int32_def round_double_0)

section \<open>The shutdown of the pipeline\<close>

lemma post_processing_set:
  "set (post_processing settings xml) \<subseteq> {CreatePbi, CreateDataSet}"
  by (auto simp: post_processing_def)

lemma producing_init:
  "producing align B post (pipeline_init (map ProduceWith B @ [Finalize, Join] @ post))"
  unfolding producing_def
  by (rule exI [of _ B], rule exI [of _ "[]"]) (simp add: pipeline_init_def)

lemma driver_step_producing:
  assumes "producing align B post s" "driver_step cap s = Some s'"
  shows "producing align B post s' \<or> draining align B post s'"
proof -
  from assms(1) obtain bs cs where
    d: "driver s = map ProduceWith bs @ [Finalize, Join] @ post"
    and B: "cs @ tasks s @ bs = B"
    and flags: "\<not> finalized s" "\<not> writer_done s" "seen s = []"
    and w: "writer s = foldl WriteRecords sink_init (map align cs)"
    unfolding producing_def by blast
  show ?thesis
  proof (cases bs)
    case Nil
    with d assms(2) have s': "s' = s\<lparr>driver := Join # post, finalized := True\<rparr>"
      by simp
    have "draining align B post s'"
      unfolding draining_def
      by (rule exI [of _ cs]) (use s' B flags w Nil in simp)
    then show ?thesis ..
  next
    case (Cons b bs')
    with d assms(2) have s': "s' = s\<lparr>driver := map ProduceWith bs' @ [Finalize, Join] @ post,
        tasks := tasks s @ [b]\<rparr>"
      by (simp split: if_splits)
    have "producing align B post s'"
      unfolding producing_def
      by (rule exI [of _ bs'], rule exI [of _ cs]) (use s' B flags w Cons in simp)
    then show ?thesis ..
  qed
qed

lemma driver_step_draining:
  assumes "draining align B post s" "driver_step cap s = Some s'"
  shows "stopped align B post s'"
proof -
  from assms(1) obtain cs where
    d: "driver s = Join # post" and B: "cs @ tasks s = B"
    and flags: "finalized s" "seen s = []"
    and w: "if writer_done s then tasks s = [] \<and> writer s = WriterThread (map align B)
         else writer s = foldl WriteRecords sink_init (map align cs)"
    unfolding draining_def by blast
  from d assms(2) have wd: "writer_done s" and s': "s' = s\<lparr>driver := post\<rparr>"
    by (simp_all split: if_splits)
  show ?thesis
    unfolding stopped_def using s' wd w flags by simp
qed

lemma written_WriterThread: "written (WriterThread rs) = consumed rs"
  by (simp add: WriterThread_def Let_def foldl_WriteRecords_written sink_init_def)

lemma driver_step_stopped:
  assumes "stopped align B post s" "driver_step cap s = Some s'"
    and post: "set post \<subseteq> {CreatePbi, CreateDataSet}"
  shows "stopped align B post s'"
proof -
  from assms(1) obtain pre where
    p: "post = pre @ driver s"
    and rest: "tasks s = []" "finalized s" "writer_done s"
      "writer s = WriterThread (map align B)"
      "\<forall>e\<in>set (seen s). snd e = consumed (map align B)"
    unfolding stopped_def by blast
  from assms(2) obtain a r where d: "driver s = a # r"
    by (cases "driver s") simp_all
  with p post have a: "a = CreatePbi \<or> a = CreateDataSet" by auto
  with d assms(2) have
    s': "s' = s\<lparr>driver := r, seen := seen s @ [(a, written (writer s))]\<rparr>"
    by auto
  have "post = (pre @ [a]) @ r" using p d by simp
  then have "\<exists>pre'. post = pre' @ driver s'" using s' by auto
  then show ?thesis
    unfolding stopped_def using s' rest by (simp add: written_WriterThread)
qed

lemma writer_step_producing:
  assumes "producing align B post s" "writer_step align s = Some s'"
  shows "producing align B post s'"
proof -
  from assms(1) obtain bs cs where
    d: "driver s = map ProduceWith bs @ [Finalize, Join] @ post"
    and B: "cs @ tasks s @ bs = B"
    and flags: "\<not> finalized s" "\<not> writer_done s" "seen s = []"
    and w: "writer s = foldl WriteRecords sink_init (map align cs)"
    unfolding producing_def by blast
  from assms(2) flags obtain b q where
    t: "tasks s = b # q"
    and s': "s' = s\<lparr>tasks := q, writer := WriteRecords (writer s) (align b)\<rparr>"
    by (cases "tasks s") simp_all
  show ?thesis
    unfolding producing_def
    by (rule exI [of _ bs], rule exI [of _ "cs @ [b]"]) (use s' t d B flags w in simp)
qed

lemma writer_step_draining:
  assumes "draining align B post s" "writer_step align s = Some s'"
  shows "draining align B post s'"
proof -
  from assms(1) obtain cs where
    d: "driver s = Join # post" and B: "cs @ tasks s = B"
    and flags: "finalized s" "seen s = []"
    and w: "if writer_done s then tasks s = [] \<and> writer s = WriterThread (map align B)
         else writer s = foldl WriteRecords sink_init (map align cs)"
    unfolding draining_def by blast
  from assms(2) have nd: "\<not> writer_done s" by (simp split: if_splits)
  with w have w': "writer s = foldl WriteRecords sink_init (map align cs)" by simp
  show ?thesis
  proof (cases "tasks s")
    case Nil
    with assms(2) nd flags have
      s': "s' = s\<lparr>writer_done := True,
          writer := (writer s)\<lparr>logged := logged (writer s) @ report (summary (writer s))\<rparr>\<rparr>"
      by simp
    from Nil B have "cs = B" by simp
    with w' have "(writer s)\<lparr>logged := logged (writer s) @ report (summary (writer s))\<rparr> =
        WriterThread (map align B)"
      by (simp add: WriterThread_def Let_def)
    then show ?thesis
      unfolding draining_def
      by (intro exI [of _ cs]) (use s' Nil d B flags in simp)
  next
    case (Cons b q)
    with assms(2) nd have
      s': "s' = s\<lparr>tasks := q, writer := WriteRecords (writer s) (align b)\<rparr>"
      by simp
    show ?thesis
      unfolding draining_def
      by (rule exI [of _ "cs @ [b]"]) (use s' Cons d B flags nd w' in simp)
  qed
qed

lemma writer_step_stopped:
  assumes "stopped align B post s"
  shows "writer_step align s = None"
  using assms by (simp add: stopped_def)

lemma pipeline_inv_driver_step:
  assumes "pipeline_inv align B post s" "driver_step cap s = Some s'"
    and "set post \<subseteq> {CreatePbi, CreateDataSet}"
  shows "pipeline_inv align B post s'"
  using assms driver_step_producing [of align B post s cap s']
    driver_step_draining [of align B post s cap s']
    driver_step_stopped [of align B post s cap s']
  unfolding pipeline_inv_def by blast

lemma pipeline_inv_writer_step:
  assumes "pipeline_inv align B post s" "writer_step align s = Some s'"
  shows "pipeline_inv align B post s'"
  using assms writer_step_producing [of align B post s s']
    writer_step_draining [of align B post s s'] writer_step_stopped [of align B post s]
  unfolding pipeline_inv_def by force

lemma pipeline_inv_run:
  assumes "set post \<subseteq> {CreatePbi, CreateDataSet}"
  shows "pipeline_inv align B post s \<Longrightarrow> pipeline_inv align B post (run align cap sched s)"
proof (induction sched arbitrary: s)
  case Nil
  then show ?case by simp
next
  case (Cons t sched)
  show ?case
  proof (cases t)
    case Driver
    show ?thesis
    proof (cases "driver_step cap s")
      case None
      with Driver Cons show ?thesis by simp
    next
      case (Some s')
      from Cons.prems Some assms have "pipeline_inv align B post s'"
        by (rule pipeline_inv_driver_step)
      then have "pipeline_inv align B post (run align cap sched s')" by (rule Cons.IH)
      with Driver Some show ?thesis by simp
    qed
  next
    case Writer
    show ?thesis
    proof (cases "writer_step align s")
      case None
      with Writer Cons show ?thesis by simp
    next
      case (Some s')
      from Cons.prems Some have "pipeline_inv align B post s'"
        by (rule pipeline_inv_writer_step)
      then have "pipeline_inv align B post (run align cap sched s')" by (rule Cons.IH)
      with Writer Some show ?thesis by simp
    qed
  qed
qed

lemma producing_facts:
  assumes "producing align B post s"
  shows "Finalize \<in> set (driver s)" "Join \<in> set (driver s)" "\<not> finalized s" "seen s = []"
  using assms unfolding producing_def by auto

lemma draining_facts:
  assumes "draining align B post s" "set post \<subseteq> {CreatePbi, CreateDataSet}"
  shows "Finalize \<notin> set (driver s)" "Join \<in> set (driver s)" "finalized s" "seen s = []"
    "ProduceWith b \<notin> set (driver s)"
  using assms unfolding draining_def by auto

lemma stopped_facts:
  assumes "stopped align B post s" "set post \<subseteq> {CreatePbi, CreateDataSet}"
  shows "Finalize \<notin> set (driver s)" "finalized s" "ProduceWith b \<notin> set (driver s)"
    "writer_done s" "tasks s = []" "writer s = WriterThread (map align B)"
    "\<forall>e\<in>set (seen s). snd e = consumed (map align B)"
  using assms unfolding stopped_def by auto

text \<open>
  C5. In every execution of the pipeline, under every schedule of the driver and the
  writer thread: \<open>Runner\<close> calls \<open>Finalize\<close> once, after the last \<open>ProduceWith\<close>, and
  then joins the writer; once the driver is past the join the writer has ended, the queue
  is empty and the writer has written the results of all the batches submitted; every
  post-processing step (the index, the dataset XML) runs on an output file that holds the
  records of all these results.
\<close>

theorem Runner_shutdown:
  assumes "Runner_actions settings outputIsXML dflt input = Some prog"
    and "s = run align cap sched (pipeline_init prog)"
  shows "\<exists>batches. Runner_batches dflt input = Some batches \<and>
     prog = map ProduceWith batches @ [Finalize, Join] @ post_processing settings outputIsXML \<and>
     count_list prog Finalize = 1 \<and>
     (finalized s \<longleftrightarrow> Finalize \<notin> set (driver s)) \<and>
     (finalized s \<longrightarrow> (\<forall>b. ProduceWith b \<notin> set (driver s))) \<and>
     (Join \<notin> set (driver s) \<longrightarrow>
        writer_done s \<and> tasks s = [] \<and> finalized s \<and>
        writer s = WriterThread (map align batches)) \<and>
     (\<forall>e\<in>set (seen s). snd e = consumed (map align batches))"
proof -
  define post where "post = post_processing settings outputIsXML"
  from assms(1) obtain batches where
    b: "Runner_batches dflt input = Some batches"
    and prog: "prog = map ProduceWith batches @ [Finalize, Join] @ post"
    by (auto simp: Runner_actions_def post_def split: option.splits)
  have post: "set post \<subseteq> {CreatePbi, CreateDataSet}"
    unfolding post_def by (rule post_processing_set)
  have "count_list (map ProduceWith batches) Finalize = 0"
    by (induction batches) simp_all
  moreover have "count_list post Finalize = 0"
    using post by (simp add: post_def post_processing_def)
  ultimately have once: "count_list prog Finalize = 1"
    by (simp add: prog)
  have "pipeline_inv align batches post (pipeline_init prog)"
    unfolding pipeline_inv_def prog using producing_init by blast
  then have "pipeline_inv align batches post s"
    unfolding assms(2) by (rule pipeline_inv_run [OF post])
  then consider "producing align batches post s" | "draining align batches post s"
    | "stopped align batches post s"
    unfolding pipeline_inv_def by blast
  then have "(finalized s \<longleftrightarrow> Finalize \<notin> set (driver s)) \<and>
     (finalized s \<longrightarrow> (\<forall>b. ProduceWith b \<notin> set (driver s))) \<and>
     (Join \<notin> set (driver s) \<longrightarrow>
        writer_done s \<and> tasks s = [] \<and> finalized s \<and>
        writer s = WriterThread (map align batches)) \<and>
     (\<forall>e\<in>set (seen s). snd e = consumed (map align batches))"
  proof cases
    case 1
    from producing_facts [OF this] show ?thesis by simp
  next
    case 2
    from draining_facts [OF this post] show ?thesis by simp
  next
    case 3
    from stopped_facts [OF this post] show ?thesis by simp
  qed
  with b prog once show ?thesis unfolding post_def by blast
qed

theorem Runner_shutdown_witness:
  "Runner_actions settings_pbi False aln_50_5 [] =
     Some [ProduceWith [aln_50_5], Finalize, Join, CreatePbi] \<and>
   Runner_batches aln_50_5 [] = Some [[aln_50_5]] \<and>
   finalized (run Some 2 [Driver, Driver, Writer, Writer, Driver, Driver]
     (pipeline_init [ProduceWith [aln_50_5], Finalize, Join, CreatePbi])) \<and>
   driver (run Some 2 [Driver, Driver, Writer, Writer, Driver, Driver]
     (pipeline_init [ProduceWith [aln_50_5], Finalize, Join, CreatePbi])) = [] \<and>
   writer_done (run Some 2 [Driver, Driver, Writer, Writer, Driver, Driver]
     (pipeline_init [ProduceWith [aln_50_5], Finalize, Join, CreatePbi])) \<and>
   writer (run Some 2 [Driver, Driver, Writer, Writer, Driver, Driver]
     (pipeline_init [ProduceWith [aln_50_5], Finalize, Join, CreatePbi])) =
     WriterThread [Some [aln_50_5]] \<and>
   seen (run Some 2 [Driver, Driver, Writer, Writer, Driver, Driver]
     (pipeline_init [ProduceWith [aln_50_5], Finalize, Join, CreatePbi])) =
     [(CreatePbi, [aln_50_5])]"
proof -
  have prog: "Runner_actions settings_pbi False aln_50_5 [] =
      Some [ProduceWith [aln_50_5], Finalize, Join, CreatePbi]"
    by (simp add: Runner_actions_def Runner_batches_empty post_processing_def settings_pbi_def)
  define s where "s = run Some 2 [Driver, Driver, Writer, Writer, Driver, Driver]
     (pipeline_init [ProduceWith [aln_50_5], Finalize, Join, CreatePbi])"
  have d: "driver s = []" "seen s = [(CreatePbi, [aln_50_5])]"
    by (simp_all add: s_def pipeline_init_def WriteRecords_def write_aln_def Let_def sink_init_def)
  from Runner_shutdown [OF prog s_def] d Runner_batches_empty [of aln_50_5] prog
  show ?thesis unfolding s_def [symmetric] by auto
qed

end
